theory Spec2Isabelle
  imports Main "HOL-Library.Sublist"
begin

section \<open>The remote orchestration engine of libgit2 (src/remote.c)\<close>

text \<open>
  A shallow embedding of the functions of \<^verbatim>\<open>src/remote.c\<close> that the specification's
  claims are about. C strings are \<open>string\<close>, a \<^verbatim>\<open>NULL\<close> pointer is \<open>None\<close>, an \<^verbatim>\<open>int\<close>
  return code is an \<open>int\<close>, and a function that mutates the remote or the repository
  returns the updated value next to its return code.

  Allocation never fails in the model: a branch of the source that is only taken when
  \<^verbatim>\<open>malloc\<close> fails (\<^verbatim>\<open>GIT_ERROR_CHECK_ALLOC\<close>, a failing \<^verbatim>\<open>git_buf_printf\<close> or
  \<^verbatim>\<open>git_vector_insert\<close>) is left out.
\<close>

subsection \<open>Return codes\<close>

text \<open>
  The header \<^verbatim>\<open>git2/errors.h\<close> is not among the sources. The codes carry the values of
  the libgit2 header; \<^verbatim>\<open>GIT_EAGAIN\<close> and \<^verbatim>\<open>GIT_EBUSY\<close> belong to this fork, their values are
  not in the sources, and they stand here for two further negative codes different from
  all the others. The code only compares return codes with each other and with zero.
\<close>

definition GIT_OK :: int where "GIT_OK = 0"
definition GIT_ERROR :: int where "GIT_ERROR = - 1"
definition GIT_ENOTFOUND :: int where "GIT_ENOTFOUND = - 3"
definition GIT_EEXISTS :: int where "GIT_EEXISTS = - 4"
definition GIT_EINVALIDSPEC :: int where "GIT_EINVALIDSPEC = - 12"
definition GIT_EINVALID :: int where "GIT_EINVALID = - 21"
definition GIT_PASSTHROUGH :: int where "GIT_PASSTHROUGH = - 30"
definition GIT_ITEROVER :: int where "GIT_ITEROVER = - 31"
definition GIT_EAGAIN :: int where "GIT_EAGAIN = - 40"
definition GIT_EBUSY :: int where "GIT_EBUSY = - 41"

lemmas git_codes =
  GIT_OK_def GIT_ERROR_def GIT_ENOTFOUND_def GIT_EEXISTS_def GIT_EINVALIDSPEC_def
  GIT_EINVALID_def GIT_PASSTHROUGH_def GIT_ITEROVER_def GIT_EAGAIN_def GIT_EBUSY_def

subsection \<open>The pending-callback stack\<close>

text \<open>
  A \<^verbatim>\<open>git_perform_cb\<close> is a pointer to a function. The resume functions of
  \<^verbatim>\<open>remote.c\<close> are named; \<open>Foreign_cb\<close> is a resume function that lives outside
  \<^verbatim>\<open>remote.c\<close> (a transport's). A \<^verbatim>\<open>NULL\<close> function pointer is \<open>None\<close>.
\<close>

datatype git_perform_cb =
    Connect_perform
  | Connect_performurl
  | Foreign_cb nat

text \<open>
  \<^verbatim>\<open>remote->perform_callbacks\<close> is an array of fixed size and \<^verbatim>\<open>remote->perform_num_cb\<close>
  (a \<^verbatim>\<open>size_t\<close>) the number of slots in use. The array is a list whose length is the
  array's size, so \<^verbatim>\<open>ARRAY_SIZE(remote->perform_callbacks)\<close> is that length (the
  declaration, in \<^verbatim>\<open>remote.h\<close>, is not among the sources). The counter is a \<open>nat\<close>: the
  only arithmetic on it is an increment below the array's size and a decrement above
  zero, so it never wraps.
\<close>

record perform_stack =
  perform_callbacks :: "git_perform_cb option list"
  perform_num_cb :: nat

text \<open>
  A write to \<^verbatim>\<open>a[i]\<close>. Outside the array the write is undefined behaviour in C: the model
  has no result there (\<open>None\<close>).
\<close>

definition array_store :: "'a list \<Rightarrow> nat \<Rightarrow> 'a \<Rightarrow> 'a list option" where
  "array_store a i v = (if i < length a then Some (a[i := v]) else None)"

text \<open>A read of \<^verbatim>\<open>a[i]\<close>, with no result outside the array.\<close>

definition array_load :: "'a list \<Rightarrow> nat \<Rightarrow> 'a option" where
  "array_load a i = (if i < length a then Some (a ! i) else None)"

text \<open>
  \<^verbatim>\<open>git_remote_add_performcb\<close>: the result is \<open>None\<close> when the function writes outside
  the array, and the return code with the updated stack otherwise.
\<close>

definition git_remote_add_performcb ::
  "perform_stack \<Rightarrow> git_perform_cb option \<Rightarrow> (int \<times> perform_stack) option" where
  "git_remote_add_performcb remote cb =
     (let num_cb = perform_num_cb remote in
      if num_cb < length (perform_callbacks remote) then
        (case array_store (perform_callbacks remote) num_cb cb of
           None \<Rightarrow> None
         | Some a \<Rightarrow>
             Some (GIT_OK, remote\<lparr>perform_callbacks := a, perform_num_cb := num_cb + 1\<rparr>))
      else Some (GIT_ERROR, remote))"

text \<open>The slots in use, bottom first: the stack as a list.\<close>

definition pending :: "perform_stack \<Rightarrow> git_perform_cb option list" where
  "pending remote = take (perform_num_cb remote) (perform_callbacks remote)"

subsection \<open>Advertised heads and the transport\<close>

text \<open>
  A \<^verbatim>\<open>git_oid\<close> is an array of 20 bytes; the model takes the number that the bytes
  denote, so the all-zero id is \<open>0\<close>.
\<close>

type_synonym git_oid = nat

definition zero_id :: git_oid where "zero_id = 0"

record git_remote_head =
  head_name :: string
  head_oid :: git_oid
  symref_target :: "string option"

text \<open>
  Names of \<^verbatim>\<open>refs.h\<close>, which is not among the sources; the values are those the
  specification gives.
\<close>

definition GIT_HEAD_FILE :: string where "GIT_HEAD_FILE = ''HEAD''"
definition GIT_REFS_HEADS_DIR :: string where "GIT_REFS_HEADS_DIR = ''refs/heads/''"
definition GIT_REFS_HEADS_MASTER_FILE :: string where
  "GIT_REFS_HEADS_MASTER_FILE = ''refs/heads/master''"

text \<open>
  \<^verbatim>\<open>git__prefixcmp(str, prefix)\<close> is zero exactly when \<open>prefix\<close> is a prefix of \<open>str\<close>;
  the code only tests the result against zero.
\<close>

definition git__prefixcmp :: "string \<Rightarrow> string \<Rightarrow> int" where
  "git__prefixcmp str pfx = (if prefix pfx str then 0 else 1)"

text \<open>
  The transport is outside \<^verbatim>\<open>remote.c\<close>. Of a transport the model keeps what its
  \<^verbatim>\<open>ls\<close> function answers: an error code, or the advertised heads in the order they
  were sent.
\<close>

record git_transport =
  transport_ls :: "int + git_remote_head list"

definition git_remote_ls :: "git_transport option \<Rightarrow> int + git_remote_head list" where
  "git_remote_ls transport =
     (case transport of
        None \<Rightarrow> Inl (- 1)
      | Some t \<Rightarrow> transport_ls t)"

subsection \<open>Default branch discovery\<close>

text \<open>
  The loop of \<^verbatim>\<open>git_remote_default_branch\<close> over \<^verbatim>\<open>heads[1..]\<close>, with the variable
  \<^verbatim>\<open>guess\<close> as an accumulator; the \<^verbatim>\<open>break\<close> returns at once.
\<close>

fun default_branch_loop ::
  "git_oid \<Rightarrow> git_remote_head list \<Rightarrow> git_remote_head option \<Rightarrow> git_remote_head option" where
  "default_branch_loop head_id [] guess = guess"
| "default_branch_loop head_id (h # hs) guess =
     (if head_id \<noteq> head_oid h then default_branch_loop head_id hs guess
      else if git__prefixcmp (head_name h) GIT_REFS_HEADS_DIR \<noteq> 0 then
        default_branch_loop head_id hs guess
      else if guess = None then default_branch_loop head_id hs (Some h)
      else if GIT_REFS_HEADS_MASTER_FILE = head_name h then Some h
      else default_branch_loop head_id hs guess)"

text \<open>
  \<^verbatim>\<open>git_remote_default_branch(out, remote)\<close>: the return code and the buffer \<open>out\<close>,
  to which \<^verbatim>\<open>git_buf_puts\<close> appends the name.
\<close>

definition git_remote_default_branch :: "string \<Rightarrow> git_transport option \<Rightarrow> int \<times> string" where
  "git_remote_default_branch out transport =
     (case git_remote_ls transport of
        Inl error \<Rightarrow> (error, out)
      | Inr heads \<Rightarrow>
          if length heads = 0 then (GIT_ENOTFOUND, out)
          else if head_name (heads ! 0) \<noteq> GIT_HEAD_FILE then (GIT_ENOTFOUND, out)
          else
            (case symref_target (heads ! 0) of
               Some target \<Rightarrow> (0, out @ target)
             | None \<Rightarrow>
                 (case default_branch_loop (head_oid (heads ! 0)) (drop 1 heads) None of
                    None \<Rightarrow> (GIT_ENOTFOUND, out)
                  | Some guess \<Rightarrow> (0, out @ head_name guess))))"

text \<open>
  The candidates of the specification: the advertised heads under \<^verbatim>\<open>refs/heads/\<close> whose
  id is the id \<open>head_id\<close> that \<^verbatim>\<open>HEAD\<close> is advertised with.
\<close>

definition default_branch_candidates ::
  "git_oid \<Rightarrow> git_remote_head list \<Rightarrow> git_remote_head list" where
  "default_branch_candidates head_id heads =
     filter (\<lambda>h. prefix ''refs/heads/'' (head_name h) \<and> head_oid h = head_id) heads"


subsection \<open>Configuration\<close>

text \<open>
  A configuration is the list of its entries in the order in which an iterator visits
  them. The configuration store (\<^verbatim>\<open>config.c\<close>) is not among the sources.
\<close>

record git_config_entry =
  entry_name :: string
  entry_value :: string

type_synonym git_config = "git_config_entry list"

datatype git_direction = GIT_DIRECTION_FETCH | GIT_DIRECTION_PUSH

text \<open>
  Modelled from the spec: \<^verbatim>\<open>git_config_iterator_glob_new\<close> with \<^verbatim>\<open>git_config_next\<close>
  (\<^verbatim>\<open>config.c\<close>, not among the sources), called with the regular expression
  \<^verbatim>\<open>pfx\..*\.sfx\<close>. The specification says that the rewriter reads the entries matching
  \<^verbatim>\<open>url.<replacement>.insteadof\<close>: the iterator yields, in order, the entries whose name
  is \<open>pfx\<close>, a dot, any text, a dot and \<open>sfx\<close>. It does not fail.
\<close>

definition glob_matches :: "string \<Rightarrow> string \<Rightarrow> string \<Rightarrow> bool" where
  "glob_matches pfx sfx nm \<longleftrightarrow>
     prefix (pfx @ ''.'') nm \<and> suffix (''.'' @ sfx) nm \<and>
     length (pfx @ ''.'') + length (''.'' @ sfx) \<le> length nm"

definition git_config_iterator_glob_new ::
  "git_config \<Rightarrow> string \<Rightarrow> string \<Rightarrow> int + git_config_entry list" where
  "git_config_iterator_glob_new config pfx sfx =
     Inr (filter (\<lambda>entry. glob_matches pfx sfx (entry_name entry)) config)"

subsection \<open>The URL rewriter\<close>

definition PREFIX :: string where "PREFIX = ''url''"
definition SUFFIX_FETCH :: string where "SUFFIX_FETCH = ''insteadof''"
definition SUFFIX_PUSH :: string where "SUFFIX_PUSH = ''pushinsteadof''"

text \<open>
  The \<^verbatim>\<open>while\<close> loop of \<^verbatim>\<open>apply_insteadof\<close> over the entries of the iterator, with the
  variables \<^verbatim>\<open>match_length\<close> and \<^verbatim>\<open>replacement\<close>. The subtraction that gives
  \<^verbatim>\<open>replacement_length\<close> is on \<^verbatim>\<open>size_t\<close>; the iterator only yields names that are at least
  \<^verbatim>\<open>prefix_length + suffix_length\<close> long, where it does not wrap.
  \<^verbatim>\<open>git__strndup(s, n)\<close> copies the first \<open>n\<close> characters of \<open>s\<close>.
\<close>

fun insteadof_loop ::
  "string \<Rightarrow> nat \<Rightarrow> nat \<Rightarrow> git_config_entry list \<Rightarrow> nat \<Rightarrow> string option \<Rightarrow>
   nat \<times> string option" where
  "insteadof_loop url prefix_length suffix_length [] match_length replacement =
     (match_length, replacement)"
| "insteadof_loop url prefix_length suffix_length (entry # rest) match_length replacement =
     (if git__prefixcmp url (entry_value entry) \<noteq> 0 then
        insteadof_loop url prefix_length suffix_length rest match_length replacement
      else
        let n = length (entry_value entry) in
        if n \<le> match_length then
          insteadof_loop url prefix_length suffix_length rest match_length replacement
        else
          let replacement_length = length (entry_name entry) - (prefix_length + suffix_length)
          in insteadof_loop url prefix_length suffix_length rest n
               (Some (take replacement_length (drop prefix_length (entry_name entry)))))"

text \<open>
  \<^verbatim>\<open>apply_insteadof\<close>: \<open>None\<close> is the \<^verbatim>\<open>NULL\<close> that the function returns when the iterator
  cannot be made. The last \<open>None\<close> stands for printing a \<^verbatim>\<open>NULL\<close> replacement, which the
  loop excludes: \<^verbatim>\<open>match_length\<close> only grows together with an assignment to
  \<^verbatim>\<open>replacement\<close>.
\<close>

definition apply_insteadof :: "git_config \<Rightarrow> string \<Rightarrow> git_direction \<Rightarrow> string option" where
  "apply_insteadof config url direction =
     (let prefix_length = length PREFIX + 1;
          sfx = (if direction = GIT_DIRECTION_FETCH then SUFFIX_FETCH else SUFFIX_PUSH);
          suffix_length = length sfx + 1
      in case git_config_iterator_glob_new config PREFIX sfx of
           Inl error \<Rightarrow> None
         | Inr entries \<Rightarrow>
             (case insteadof_loop url prefix_length suffix_length entries 0 None of
                (match_length, replacement) \<Rightarrow>
                  if match_length = 0 then Some url
                  else
                    (case replacement of
                       None \<Rightarrow> None
                     | Some r \<Rightarrow> Some (r @ drop match_length url))))"

text \<open>
  The entries that the rewrite of \<open>url\<close> chooses among: those named
  \<^verbatim>\<open>url.<replacement>.insteadof\<close> (\<^verbatim>\<open>pushinsteadof\<close> for the push direction) whose value is
  a prefix of \<open>url\<close>, in iteration order.
\<close>

definition insteadof_suffix :: "git_direction \<Rightarrow> string" where
  "insteadof_suffix direction =
     (if direction = GIT_DIRECTION_FETCH then ''insteadof'' else ''pushinsteadof'')"

definition insteadof_candidates ::
  "git_config \<Rightarrow> string \<Rightarrow> git_direction \<Rightarrow> git_config_entry list" where
  "insteadof_candidates config url direction =
     filter (\<lambda>entry. prefix (entry_value entry) url)
       (filter (\<lambda>entry. glob_matches ''url'' (insteadof_suffix direction) (entry_name entry))
          config)"


subsection \<open>Refspecs and the functions of refspec.c\<close>

record git_refspec =
  spec_string :: string
  spec_src :: string
  spec_dst :: "string option"
  spec_force :: bool
  spec_push :: bool
  spec_pattern :: bool

text \<open>
  The files \<^verbatim>\<open>refspec.c\<close> and \<^verbatim>\<open>refs.c\<close> are not among the sources. The functions of
  theirs that \<^verbatim>\<open>remote.c\<close> calls are parameters of the model, the fields of one record:
  every function of \<^verbatim>\<open>remote.c\<close> below takes the record as its first argument, and the
  theorems hold for every value of it.
  \<^item> \<open>git_refspec__parse string is_fetch\<close> is \<open>None\<close> when parsing fails;
  \<^item> \<open>git_refspec_transform\<close> and \<open>git_refspec_rtransform\<close> answer the name they write
    to the buffer, or \<open>Inl\<close> of a negative code;
  \<^item> \<open>git_refspec__dwim_one spec refs\<close> answers the refspecs it appends to the output
    vector, or \<open>Inl\<close> of a negative code.
  \<^verbatim>\<open>git_remote_write_fetchhead\<close> is a function of \<^verbatim>\<open>remote.c\<close> that writes the digest file
  \<^verbatim>\<open>FETCH_HEAD\<close> from the list \<^verbatim>\<open>update_heads\<close>; it changes no reference and calls no
  callback. The model does not follow it into the file system: its return code is the
  field \<open>git_remote_write_fetchhead\<close>.
\<close>

record refspec_api =
  git_refspec__parse :: "string \<Rightarrow> bool \<Rightarrow> git_refspec option"
  git_refspec_src_matches :: "git_refspec \<Rightarrow> string \<Rightarrow> bool"
  git_refspec_dst_matches :: "git_refspec \<Rightarrow> string \<Rightarrow> bool"
  git_refspec_transform :: "git_refspec \<Rightarrow> string \<Rightarrow> int + string"
  git_refspec_rtransform :: "git_refspec \<Rightarrow> string \<Rightarrow> int + string"
  git_refspec__dwim_one :: "git_refspec \<Rightarrow> git_remote_head list \<Rightarrow> int + git_refspec list"
  git_reference_is_valid_name :: "string \<Rightarrow> bool"
  git_remote_write_fetchhead :: "git_refspec \<Rightarrow> git_remote_head list \<Rightarrow> int"

definition GIT_REFSPEC_TAGS :: string where
  "GIT_REFSPEC_TAGS = ''refs/tags/*:refs/tags/*''"

subsection \<open>The repository: references, objects, configuration\<close>

datatype git_reference = Direct git_oid | Symbolic string

text \<open>
  What is observed of a run: the calls to \<^verbatim>\<open>git_reference_create\<close> (name, id, force,
  return code), to \<^verbatim>\<open>git_reference_delete\<close> (name, return code) and to the caller's
  \<^verbatim>\<open>update_tips\<close> callback (name, old id, new id, return code), in the order in which
  they were made.
\<close>

datatype event =
    Reference_create string git_oid bool int
  | Reference_delete string int
  | Update_tips string git_oid git_oid int

text \<open>
  The repository that \<^verbatim>\<open>remote->repo\<close> points to.
  \<^item> \<open>repo_refs\<close>: the reference store, name and reference, in the order in which
    \<^verbatim>\<open>git_reference_list\<close> lists them;
  \<^item> \<open>repo_odb\<close>: the ids of the objects in the object database, or the code with
    which \<^verbatim>\<open>git_repository_odb__weakptr\<close> fails;
  \<^item> \<open>repo_config\<close>: the configuration, or the code with which it fails to load;
  \<^item> \<open>config_write_result name value\<close>: what the configuration store answers to a
    write of \<open>value\<close> under \<open>name\<close>, zero when it takes the write and a negative code
    when it refuses it (a read-only or locked file, a malformed key);
  \<^item> \<open>repo_trace\<close>: the events so far.
\<close>

record git_repository =
  repo_refs :: "(string \<times> git_reference) list"
  repo_odb :: "int + git_oid list"
  repo_config :: "int + git_config"
  config_write_result :: "string \<Rightarrow> string \<Rightarrow> int"
  repo_trace :: "event list"

text \<open>
  Modelled from the spec: the reference store and the object database (\<^verbatim>\<open>refs.c\<close>,
  \<^verbatim>\<open>odb.c\<close>, not among the sources), at the interface that \<^verbatim>\<open>remote.c\<close> uses.
  \<^item> \<^verbatim>\<open>git_reference_list\<close> lists the names;
  \<^item> \<^verbatim>\<open>git_reference_lookup\<close> answers the reference of a name, not-found when there is
    none;
  \<^item> \<^verbatim>\<open>git_reference_name_to_id\<close> reads the id that a name resolves to, following
    symbolic references (at most \<open>MAX_NESTING_LEVEL\<close> of them), not-found when the name
    or a target is absent;
  \<^item> \<^verbatim>\<open>git_reference_create\<close> with \<open>force\<close> creates or overwrites the reference;
    without \<open>force\<close> it fails with already-exists on an existing name;
  \<^item> \<^verbatim>\<open>git_reference_delete\<close> removes the reference;
  \<^item> \<^verbatim>\<open>git_odb_exists\<close> tells whether the object is in the database.
\<close>

definition git_repository_odb__weakptr :: "git_repository \<Rightarrow> int + git_oid list" where
  "git_repository_odb__weakptr repo = repo_odb repo"

definition git_odb_exists :: "git_oid list \<Rightarrow> git_oid \<Rightarrow> bool" where
  "git_odb_exists odb oid \<longleftrightarrow> oid \<in> set odb"

definition git_reference_list :: "git_repository \<Rightarrow> int + string list" where
  "git_reference_list repo = Inr (map fst (repo_refs repo))"

definition git_reference_lookup :: "git_repository \<Rightarrow> string \<Rightarrow> int + git_reference" where
  "git_reference_lookup repo refname =
     (case map_of (repo_refs repo) refname of
        None \<Rightarrow> Inl GIT_ENOTFOUND
      | Some ref \<Rightarrow> Inr ref)"

definition MAX_NESTING_LEVEL :: nat where "MAX_NESTING_LEVEL = 10"

fun resolve_reference :: "nat \<Rightarrow> (string \<times> git_reference) list \<Rightarrow> string \<Rightarrow> int + git_oid" where
  "resolve_reference 0 refs refname = Inl (- 1)"
| "resolve_reference (Suc depth) refs refname =
     (case map_of refs refname of
        None \<Rightarrow> Inl GIT_ENOTFOUND
      | Some (Direct oid) \<Rightarrow> Inr oid
      | Some (Symbolic target) \<Rightarrow> resolve_reference depth refs target)"

definition git_reference_name_to_id :: "git_repository \<Rightarrow> string \<Rightarrow> int + git_oid" where
  "git_reference_name_to_id repo refname =
     resolve_reference (Suc MAX_NESTING_LEVEL) (repo_refs repo) refname"

text \<open>Storing a reference keeps the place of an existing name and appends a new one.\<close>

fun store_reference ::
  "(string \<times> git_reference) list \<Rightarrow> string \<Rightarrow> git_reference \<Rightarrow> (string \<times> git_reference) list" where
  "store_reference [] refname ref = [(refname, ref)]"
| "store_reference ((n, r) # refs) refname ref =
     (if n = refname then (n, ref) # refs else (n, r) # store_reference refs refname ref)"

definition git_reference_create ::
  "git_repository \<Rightarrow> string \<Rightarrow> git_oid \<Rightarrow> bool \<Rightarrow> int \<times> git_repository" where
  "git_reference_create repo refname oid force =
     (if \<not> force \<and> map_of (repo_refs repo) refname \<noteq> None then
        (GIT_EEXISTS,
         repo\<lparr>repo_trace := repo_trace repo @ [Reference_create refname oid force GIT_EEXISTS]\<rparr>)
      else
        (0,
         repo\<lparr>repo_refs := store_reference (repo_refs repo) refname (Direct oid),
              repo_trace := repo_trace repo @ [Reference_create refname oid force 0]\<rparr>))"

definition git_reference_delete :: "git_repository \<Rightarrow> string \<Rightarrow> int \<times> git_repository" where
  "git_reference_delete repo refname =
     (0,
      repo\<lparr>repo_refs := filter (\<lambda>(n, r). n \<noteq> refname) (repo_refs repo),
           repo_trace := repo_trace repo @ [Reference_delete refname 0]\<rparr>)"

subsection \<open>Callbacks\<close>

text \<open>
  Of the caller's \<^verbatim>\<open>git_remote_callbacks\<close> the model keeps the version and the
  \<^verbatim>\<open>update_tips\<close> hook, \<open>None\<close> for a \<^verbatim>\<open>NULL\<close> pointer. The hook is the caller's code: a
  function from its arguments to the code it returns.
\<close>

record git_remote_callbacks =
  cb_version :: nat
  update_tips :: "(string \<Rightarrow> git_oid \<Rightarrow> git_oid \<Rightarrow> int) option"

definition GIT_REMOTE_CALLBACKS_VERSION :: nat where "GIT_REMOTE_CALLBACKS_VERSION = 1"

text \<open>
  The macro \<^verbatim>\<open>GIT_ERROR_CHECK_VERSION\<close> (\<^verbatim>\<open>common.h\<close>, not among the sources) returns
  \<open>-1\<close> from the calling function unless the structure's version is between one and the
  expected version; this is its test.
\<close>

definition git_error__check_version :: "nat \<Rightarrow> nat \<Rightarrow> int" where
  "git_error__check_version actual expected_max =
     (if 0 < actual \<and> actual \<le> expected_max then 0 else - 1)"

text \<open>A call of the \<^verbatim>\<open>update_tips\<close> hook, recorded in the trace.\<close>

definition call_update_tips ::
  "(string \<Rightarrow> git_oid \<Rightarrow> git_oid \<Rightarrow> int) \<Rightarrow> string \<Rightarrow> git_oid \<Rightarrow> git_oid \<Rightarrow> git_repository \<Rightarrow>
   int \<times> git_repository" where
  "call_update_tips f refname old new repo =
     (f refname old new,
      repo\<lparr>repo_trace := repo_trace repo @ [Update_tips refname old new (f refname old new)]\<rparr>)"

subsection \<open>The remote handle\<close>

datatype git_remote_autotag_option_t =
    GIT_REMOTE_DOWNLOAD_TAGS_UNSPECIFIED
  | GIT_REMOTE_DOWNLOAD_TAGS_AUTO
  | GIT_REMOTE_DOWNLOAD_TAGS_NONE
  | GIT_REMOTE_DOWNLOAD_TAGS_ALL

text \<open>
  The fields of \<^verbatim>\<open>struct git_remote\<close> that the functions below read or write. The
  repository is passed next to the remote; \<open>has_repo\<close> tells whether \<^verbatim>\<open>remote->repo\<close> is
  set. \<open>prune_refs\<close> is the \<^verbatim>\<open>int\<close> that \<^verbatim>\<open>git_config_get_bool\<close> fills.
\<close>

record git_remote =
  remote_name :: "string option"
  remote_url :: "string option"
  remote_pushurl :: "string option"
  has_repo :: bool
  refspecs :: "git_refspec list"
  active_refspecs :: "git_refspec list"
  passive_refspecs :: "git_refspec list"
  download_tags :: git_remote_autotag_option_t
  prune_refs :: bool
  remote_transport :: "git_transport option"

subsection \<open>Updating the tips (update_tips_for_spec)\<close>

text \<open>
  How an iteration of a loop ends: with the next iteration (\<^verbatim>\<open>continue\<close>, or the end of
  the body), or with a jump out of the loop to the function's error exit.
\<close>

datatype 'a loop_step = Continue 'a | On_error 'a

fun step_state :: "'a loop_step \<Rightarrow> 'a" where
  "step_state (Continue s) = s"
| "step_state (On_error s) = s"

text \<open>
  The loop body of \<^verbatim>\<open>update_tips_for_spec\<close> in three parts, last part first. The state
  is the repository and the vector \<^verbatim>\<open>update_heads\<close>. The reflog message is not modelled.

  The end of the body, from the comparison of the old id with the head's id: the
  reference is created with \<^verbatim>\<open>force = !autotag\<close>, already-exists goes on to the next head,
  and the \<^verbatim>\<open>update_tips\<close> callback is called after a successful creation.
\<close>

definition update_tips_create ::
  "git_remote_callbacks option \<Rightarrow> bool \<Rightarrow> git_remote_head \<Rightarrow> string \<Rightarrow> git_oid \<Rightarrow>
   git_repository \<times> git_remote_head list \<Rightarrow> (git_repository \<times> git_remote_head list) loop_step" where
  "update_tips_create callbacks autotag head refname old st =
     (case st of (repo, update_heads) \<Rightarrow>
        if old = head_oid head then Continue (repo, update_heads)
        else
          (case git_reference_create repo refname (head_oid head) (\<not> autotag) of
             (error, repo) \<Rightarrow>
               if error = GIT_EEXISTS then Continue (repo, update_heads)
               else if error < 0 then On_error (repo, update_heads)
               else
                 (case callbacks of
                    None \<Rightarrow> Continue (repo, update_heads)
                  | Some cbs \<Rightarrow>
                      (case update_tips cbs of
                         None \<Rightarrow> Continue (repo, update_heads)
                       | Some f \<Rightarrow>
                           (case call_update_tips f refname old (head_oid head) repo of
                              (ret, repo) \<Rightarrow>
                                if ret < 0 then On_error (repo, update_heads)
                                else Continue (repo, update_heads))))))"

text \<open>
  The middle of the body, from the test of the length of \<^verbatim>\<open>refname\<close> to the reading of
  the old id.
\<close>

definition update_tips_store ::
  "git_remote_callbacks option \<Rightarrow> bool \<Rightarrow> git_oid list \<Rightarrow> git_remote_head \<Rightarrow> string \<Rightarrow>
   git_repository \<times> git_remote_head list \<Rightarrow> (git_repository \<times> git_remote_head list) loop_step" where
  "update_tips_store callbacks autotag odb head refname st =
     (case st of (repo, update_heads) \<Rightarrow>
        if length refname = 0 then Continue (repo, update_heads)
        else if autotag \<and> \<not> git_odb_exists odb (head_oid head) then Continue (repo, update_heads)
        else
          let update_heads = (if \<not> autotag then update_heads @ [head] else update_heads) in
          (case git_reference_name_to_id repo refname of
             Inl error \<Rightarrow>
               if error \<noteq> GIT_ENOTFOUND then On_error (repo, update_heads)
               else
                 update_tips_create callbacks autotag head refname zero_id
                   (repo, if autotag then update_heads @ [head] else update_heads)
           | Inr old \<Rightarrow>
               update_tips_create callbacks autotag head refname old (repo, update_heads)))"

text \<open>
  The tag rule at the head of the body: the values of \<^verbatim>\<open>autotag\<close> and \<^verbatim>\<open>refname\<close> after
  the test against the built-in tag refspec.
\<close>

definition update_tips_tag_rule ::
  "refspec_api \<Rightarrow> git_remote_autotag_option_t \<Rightarrow> git_refspec \<Rightarrow> git_remote_head \<Rightarrow> bool \<times> string" where
  "update_tips_tag_rule api tagopt tagspec head =
     (if git_refspec_src_matches api tagspec (head_name head) then
        if tagopt \<noteq> GIT_REMOTE_DOWNLOAD_TAGS_NONE then
          (tagopt = GIT_REMOTE_DOWNLOAD_TAGS_AUTO, head_name head)
        else (False, [])
      else (False, []))"

text \<open>
  The whole body for one head. \<^verbatim>\<open>git_refspec_transform\<close> writes the transformed name to
  \<^verbatim>\<open>refname\<close> in place of what the tag rule put there.
\<close>

definition update_tips_head ::
  "refspec_api \<Rightarrow> git_remote_callbacks option \<Rightarrow> git_remote_autotag_option_t \<Rightarrow> git_refspec \<Rightarrow>
   git_refspec \<Rightarrow> git_oid list \<Rightarrow> git_remote_head \<Rightarrow>
   git_repository \<times> git_remote_head list \<Rightarrow> (git_repository \<times> git_remote_head list) loop_step" where
  "update_tips_head api callbacks tagopt spec tagspec odb head st =
     (case st of (repo, update_heads) \<Rightarrow>
        if \<not> git_reference_is_valid_name api (head_name head) then Continue (repo, update_heads)
        else
          (case update_tips_tag_rule api tagopt tagspec head of
             (autotag, refname) \<Rightarrow>
               if \<not> autotag \<and> git_refspec_src_matches api spec (head_name head) then
                 (case spec_dst spec of
                    Some dst \<Rightarrow>
                      (case git_refspec_transform api spec (head_name head) of
                         Inl error \<Rightarrow> On_error (repo, update_heads)
                       | Inr refname \<Rightarrow>
                           update_tips_store callbacks autotag odb head refname
                             (repo, update_heads))
                  | None \<Rightarrow> Continue (repo, update_heads @ [head]))
               else
                 update_tips_store callbacks autotag odb head refname (repo, update_heads)))"

text \<open>The \<^verbatim>\<open>for\<close> loop over the advertised heads: \<open>False\<close> when it was left for the error exit.\<close>

fun update_tips_loop ::
  "refspec_api \<Rightarrow> git_remote_callbacks option \<Rightarrow> git_remote_autotag_option_t \<Rightarrow> git_refspec \<Rightarrow>
   git_refspec \<Rightarrow> git_oid list \<Rightarrow> git_remote_head list \<Rightarrow>
   git_repository \<times> git_remote_head list \<Rightarrow> bool \<times> git_repository \<times> git_remote_head list" where
  "update_tips_loop api callbacks tagopt spec tagspec odb [] st = (True, st)"
| "update_tips_loop api callbacks tagopt spec tagspec odb (head # refs) st =
     (case update_tips_head api callbacks tagopt spec tagspec odb head st of
        On_error st' \<Rightarrow> (False, st')
      | Continue st' \<Rightarrow> update_tips_loop api callbacks tagopt spec tagspec odb refs st')"

definition update_tips_for_spec ::
  "refspec_api \<Rightarrow> git_remote_callbacks option \<Rightarrow> bool \<Rightarrow> git_remote_autotag_option_t \<Rightarrow>
   git_refspec \<Rightarrow> git_remote_head list \<Rightarrow> git_repository \<Rightarrow> int \<times> git_repository" where
  "update_tips_for_spec api callbacks update_fetchhead tagopt spec refs repo =
     (case git_repository_odb__weakptr repo of
        Inl error \<Rightarrow> (- 1, repo)
      | Inr odb \<Rightarrow>
          (case git_refspec__parse api GIT_REFSPEC_TAGS True of
             None \<Rightarrow> (- 1, repo)
           | Some tagspec \<Rightarrow>
               (case update_tips_loop api callbacks tagopt spec tagspec odb refs (repo, []) of
                  (False, repo', update_heads) \<Rightarrow> (- 1, repo')
                | (True, repo', update_heads) \<Rightarrow>
                    if update_fetchhead \<and> git_remote_write_fetchhead api spec update_heads < 0
                    then (- 1, repo')
                    else (0, repo'))))"

text \<open>The events that a run from \<open>repo\<close> to \<open>repo'\<close> added to the trace.\<close>

definition new_events :: "git_repository \<Rightarrow> git_repository \<Rightarrow> event list" where
  "new_events repo repo' = drop (length (repo_trace repo)) (repo_trace repo')"

text \<open>
  A trace of \<^verbatim>\<open>update_tips\<close> read against the reference store \<open>refs\<close> it started from:
  a creation that failed stands alone; a creation that succeeded is followed at once by
  the call of the hook \<open>f\<close> with the same name, the id that the name resolved to before
  (the all-zero id when it did not resolve) and the new id; nothing else occurs.
\<close>

fun tips_trace_ok ::
  "(string \<Rightarrow> git_oid \<Rightarrow> git_oid \<Rightarrow> int) \<Rightarrow> (string \<times> git_reference) list \<Rightarrow> event list \<Rightarrow> bool" where
  "tips_trace_ok f refs [] \<longleftrightarrow> True"
| "tips_trace_ok f refs [Reference_create n new force e] \<longleftrightarrow> e < 0"
| "tips_trace_ok f refs (Reference_create n new force e # Update_tips n' old new' r # rest) \<longleftrightarrow>
     0 \<le> e \<and> n' = n \<and> new' = new \<and>
     old = (case resolve_reference (Suc MAX_NESTING_LEVEL) refs n of Inl error \<Rightarrow> zero_id | Inr i \<Rightarrow> i) \<and>
     r = f n old new \<and>
     tips_trace_ok f (store_reference refs n (Direct new)) rest"
| "tips_trace_ok f refs (Reference_create n new force e # rest) \<longleftrightarrow>
     e < 0 \<and> tips_trace_ok f refs rest"
| "tips_trace_ok f refs (ev # rest) \<longleftrightarrow> False"

text \<open>The calls of the hook in a list of events that returned a negative code.\<close>

fun negative_tips :: "event list \<Rightarrow> event list" where
  "negative_tips [] = []"
| "negative_tips (Update_tips n old new r # rest) =
     (if r < 0 then Update_tips n old new r # negative_tips rest else negative_tips rest)"
| "negative_tips (ev # rest) = negative_tips rest"

subsection \<open>An instance of the absent functions\<close>

text \<open>
  Modelled from the spec: the refspec functions of \<^verbatim>\<open>refspec.c\<close> and the name check of
  \<^verbatim>\<open>refs.c\<close> (not among the sources), as sections 3 and 4.1 of the specification
  describe them. A pattern is a literal name or ends in a single \<^verbatim>\<open>*\<close>; matching is
  equality, or prefix equality on the part before the \<^verbatim>\<open>*\<close>; the transform puts what
  the \<^verbatim>\<open>*\<close> of the one side stands for in place of the \<^verbatim>\<open>*\<close> of the other side. A
  refspec is an optional \<^verbatim>\<open>+\<close>, the source, and optionally a colon and the destination;
  the source of a push refspec may be empty. The specification does not say which names
  are valid: here a name is well-formed when it is not empty and has no blank, no colon,
  no \<^verbatim>\<open>^\<close> and no \<^verbatim>\<open>*\<close> except as its last character. DWIM emits a wildcard refspec as it
  is, a literal one when its source is advertised (under \<^verbatim>\<open>refs/heads/\<close> if that is what
  the peer advertises), and drops it otherwise. The closed examples below are evaluated
  with this instance.
\<close>

definition is_wildcard :: "string \<Rightarrow> bool" where
  "is_wildcard pat \<longleftrightarrow> pat \<noteq> [] \<and> last pat = CHR ''*''"

definition pattern_matches :: "string \<Rightarrow> string \<Rightarrow> bool" where
  "pattern_matches pat nm \<longleftrightarrow> (if is_wildcard pat then prefix (butlast pat) nm else pat = nm)"

definition pattern_transform :: "string \<Rightarrow> string \<Rightarrow> string \<Rightarrow> string" where
  "pattern_transform from to nm =
     (if is_wildcard from \<and> is_wildcard to then butlast to @ drop (length from - 1) nm else to)"

definition wellformed_name :: "string \<Rightarrow> bool" where
  "wellformed_name nm \<longleftrightarrow>
     nm \<noteq> [] \<and> CHR '' '' \<notin> set nm \<and> CHR '':'' \<notin> set nm \<and> CHR ''^'' \<notin> set nm \<and>
     CHR ''*'' \<notin> set (butlast nm)"

definition spec_parse :: "string \<Rightarrow> bool \<Rightarrow> git_refspec option" where
  "spec_parse str is_fetch =
     (let forced = prefix ''+'' str;
          body = (if forced then tl str else str);
          source = takeWhile (\<lambda>c. c \<noteq> CHR '':'') body;
          rest = dropWhile (\<lambda>c. c \<noteq> CHR '':'') body;
          destination = (if rest = [] then None else Some (tl rest))
      in if (wellformed_name source \<or> (\<not> is_fetch \<and> source = [])) \<and>
            (case destination of
               None \<Rightarrow> True
             | Some d \<Rightarrow> wellformed_name d \<and> (is_wildcard d \<longleftrightarrow> is_wildcard source))
         then Some \<lparr>spec_string = str, spec_src = source, spec_dst = destination,
                    spec_force = forced, spec_push = \<not> is_fetch,
                    spec_pattern = is_wildcard source\<rparr>
         else None)"

definition spec_dwim_one :: "git_refspec \<Rightarrow> git_remote_head list \<Rightarrow> int + git_refspec list" where
  "spec_dwim_one spec refs =
     Inr (if spec_pattern spec then [spec]
          else if spec_src spec \<in> head_name ` set refs then [spec]
          else if ''refs/heads/'' @ spec_src spec \<in> head_name ` set refs
          then [spec\<lparr>spec_src := ''refs/heads/'' @ spec_src spec\<rparr>]
          else [])"

definition spec_api :: refspec_api where
  "spec_api =
     \<lparr>git_refspec__parse = spec_parse,
      git_refspec_src_matches = (\<lambda>spec nm. pattern_matches (spec_src spec) nm),
      git_refspec_dst_matches =
        (\<lambda>spec nm. case spec_dst spec of None \<Rightarrow> False | Some d \<Rightarrow> pattern_matches d nm),
      git_refspec_transform =
        (\<lambda>spec nm. case spec_dst spec of
            None \<Rightarrow> Inr []
          | Some d \<Rightarrow>
              if pattern_matches (spec_src spec) nm then Inr (pattern_transform (spec_src spec) d nm)
              else Inl (- 1)),
      git_refspec_rtransform =
        (\<lambda>spec nm. case spec_dst spec of
            None \<Rightarrow> Inl (- 1)
          | Some d \<Rightarrow>
              if pattern_matches d nm then Inr (pattern_transform d (spec_src spec) nm)
              else Inl (- 1)),
      git_refspec__dwim_one = spec_dwim_one,
      git_reference_is_valid_name = (\<lambda>nm. wellformed_name nm \<and> \<not> is_wildcard nm),
      git_remote_write_fetchhead = (\<lambda>spec heads. 0)\<rparr>"

text \<open>Values for the closed examples: an empty repository, two branches, a tag.\<close>

definition empty_repository :: git_repository where
  "empty_repository =
     \<lparr>repo_refs = [], repo_odb = Inr [], repo_config = Inr [],
      config_write_result = (\<lambda>nm v. 0), repo_trace = []\<rparr>"

definition origin_heads_spec :: git_refspec where
  "origin_heads_spec =
     \<lparr>spec_string = ''+refs/heads/*:refs/remotes/origin/*'', spec_src = ''refs/heads/*'',
      spec_dst = Some ''refs/remotes/origin/*'', spec_force = True, spec_push = False,
      spec_pattern = True\<rparr>"

definition two_branches :: "git_remote_head list" where
  "two_branches =
     [\<lparr>head_name = ''refs/heads/main'', head_oid = 11, symref_target = None\<rparr>,
      \<lparr>head_name = ''refs/heads/dev'', head_oid = 12, symref_target = None\<rparr>]"

text \<open>
  What one pass through the loop body adds to the trace, starting from the reference store
  \<open>refs\<close> and ending in \<open>refs'\<close>, with the hook \<open>f\<close>: nothing; or a creation that failed;
  or a creation that succeeded and the call of the hook after it, in which case the body
  leaves for the error exit exactly when the hook returned a negative code.
\<close>

definition tips_step_events ::
  "(string \<Rightarrow> git_oid \<Rightarrow> git_oid \<Rightarrow> int) \<Rightarrow> (string \<times> git_reference) list \<Rightarrow> event list \<Rightarrow>
   (string \<times> git_reference) list \<Rightarrow> bool \<Rightarrow> bool" where
  "tips_step_events f refs evs refs' aborted \<longleftrightarrow>
     (evs = [] \<and> refs' = refs) \<or>
     (\<exists>n new force e. evs = [Reference_create n new force e] \<and> e < 0 \<and> refs' = refs) \<or>
     (\<exists>n new force e old.
        evs = [Reference_create n new force e, Update_tips n old new (f n old new)] \<and> 0 \<le> e \<and>
        old = (case resolve_reference (Suc MAX_NESTING_LEVEL) refs n of
                 Inl error \<Rightarrow> zero_id | Inr i \<Rightarrow> i) \<and>
        refs' = store_reference refs n (Direct new) \<and>
        (aborted \<longleftrightarrow> f n old new < 0))"

fun is_on_error :: "'a loop_step \<Rightarrow> bool" where
  "is_on_error (On_error s) = True"
| "is_on_error (Continue s) = False"

text \<open>
  An event without the code that the hook returned, and two repositories that differ at
  most in the codes that the hook returned: the same references, object database and
  configuration, and the same events in the same order.
\<close>

fun erase_return :: "event \<Rightarrow> event" where
  "erase_return (Update_tips n old new r) = Update_tips n old new 0"
| "erase_return ev = ev"

definition same_effect :: "git_repository \<Rightarrow> git_repository \<Rightarrow> bool" where
  "same_effect repo1 repo2 \<longleftrightarrow>
     repo_refs repo1 = repo_refs repo2 \<and>
     repo_odb repo1 = repo_odb repo2 \<and>
     repo_config repo1 = repo_config repo2 \<and>
     config_write_result repo1 = config_write_result repo2 \<and>
     map erase_return (repo_trace repo1) = map erase_return (repo_trace repo2)"

text \<open>Two passes through the loop body that end the same way, with the same effect.\<close>

definition same_step ::
  "(git_repository \<times> git_remote_head list) loop_step \<Rightarrow>
   (git_repository \<times> git_remote_head list) loop_step \<Rightarrow> bool" where
  "same_step s1 s2 \<longleftrightarrow>
     is_on_error s1 = is_on_error s2 \<and>
     same_effect (fst (step_state s1)) (fst (step_state s2)) \<and>
     snd (step_state s1) = snd (step_state s2)"

text \<open>
  What one pass through the body for the head \<open>head\<close> does when it stores under the name
  \<open>refname\<close>: nothing; or one creation, without force when \<open>autotag\<close> is set, that fails
  with already-exists and changes no reference; or one creation that succeeds, on a name
  that did not exist when \<open>autotag\<close> is set, followed only by calls of the hook.
\<close>

definition tag_step_shape ::
  "bool \<Rightarrow> git_remote_head \<Rightarrow> string \<Rightarrow> git_repository \<Rightarrow>
   (git_repository \<times> git_remote_head list) loop_step \<Rightarrow> bool" where
  "tag_step_shape autotag head refname repo step \<longleftrightarrow>
     (let repo' = fst (step_state step); evs = new_events repo repo' in
      length (repo_trace repo) \<le> length (repo_trace repo') \<and>
      ((evs = [] \<and> repo' = repo) \<or>
       (evs = [Reference_create refname (head_oid head) (\<not> autotag) GIT_EEXISTS] \<and>
        repo_refs repo' = repo_refs repo \<and> \<not> is_on_error step) \<or>
       ((\<exists>tail. evs = Reference_create refname (head_oid head) (\<not> autotag) 0 # tail \<and>
               list_all (\<lambda>ev. \<exists>old r. ev = Update_tips refname old (head_oid head) r) tail) \<and>
        (autotag \<longrightarrow> map_of (repo_refs repo) refname = None) \<and>
        repo_refs repo' = store_reference (repo_refs repo) refname (Direct (head_oid head)))))"


definition builtin_tagspec :: git_refspec where
  "builtin_tagspec =
     \<lparr>spec_string = ''refs/tags/*:refs/tags/*'', spec_src = ''refs/tags/*'',
      spec_dst = Some ''refs/tags/*'', spec_force = False, spec_push = False,
      spec_pattern = True\<rparr>"

definition tags_mirror_spec :: git_refspec where
  "tags_mirror_spec =
     \<lparr>spec_string = ''+refs/tags/*:refs/remotes/origin/tags/*'', spec_src = ''refs/tags/*'',
      spec_dst = Some ''refs/remotes/origin/tags/*'', spec_force = True, spec_push = False,
      spec_pattern = True\<rparr>"

definition tag_v1 :: git_remote_head where
  "tag_v1 = \<lparr>head_name = ''refs/tags/v1'', head_oid = 5, symref_target = None\<rparr>"

definition repository_with_tag_v1 :: git_repository where
  "repository_with_tag_v1 =
     \<lparr>repo_refs = [(''refs/tags/v1'', Direct 4)], repo_odb = Inr [4, 5], repo_config = Inr [],
      config_write_result = (\<lambda>nm v. 0), repo_trace = []\<rparr>"

subsection \<open>Pruning\<close>

definition git_remote__matching_dst_refspec ::
  "refspec_api \<Rightarrow> 'a git_remote_scheme \<Rightarrow> string \<Rightarrow> git_refspec option" where
  "git_remote__matching_dst_refspec api remote refname =
     find (\<lambda>spec. \<not> spec_push spec \<and> git_refspec_dst_matches api spec refname)
       (active_refspecs remote)"

definition ls_to_vector :: "'a git_remote_scheme \<Rightarrow> int + git_remote_head list" where
  "ls_to_vector remote =
     (case git_remote_ls (remote_transport remote) of
        Inl error \<Rightarrow> Inl (- 1)
      | Inr heads \<Rightarrow> Inr heads)"

definition prune_candidates ::
  "refspec_api \<Rightarrow> 'a git_remote_scheme \<Rightarrow> git_repository \<Rightarrow> int + string list" where
  "prune_candidates api remote repo =
     (case git_reference_list repo of
        Inl error \<Rightarrow> Inl error
      | Inr arr \<Rightarrow>
          Inr (filter (\<lambda>refname. git_remote__matching_dst_refspec api remote refname \<noteq> None) arr))"

text \<open>
  Modelled from the spec: \<^verbatim>\<open>git_vector_bsearch\<close> (\<^verbatim>\<open>vector.c\<close>, not among the sources) on
  the advertised heads under the comparison \<^verbatim>\<open>find_head\<close>, which compares names: zero
  when a head of that name is advertised, not-found otherwise.
\<close>

definition git_vector_bsearch :: "git_remote_head list \<Rightarrow> string \<Rightarrow> int" where
  "git_vector_bsearch remote_refs key_name =
     (if key_name \<in> head_name ` set remote_refs then 0 else GIT_ENOTFOUND)"

text \<open>
  The inner loop of the first loop of \<^verbatim>\<open>git_remote_prune\<close>, over the active refspecs for
  one candidate: \<open>Inl error\<close> is the jump to \<^verbatim>\<open>cleanup\<close>; otherwise the value of \<^verbatim>\<open>error\<close>
  and whether the candidate was removed from the list (set to \<^verbatim>\<open>NULL\<close>) before the
  \<^verbatim>\<open>break\<close>. The loop visits every active refspec, fetch or push.
\<close>

fun prune_find_source ::
  "refspec_api \<Rightarrow> git_remote_head list \<Rightarrow> string \<Rightarrow> git_refspec list \<Rightarrow> int \<Rightarrow>
   int + (int \<times> bool)" where
  "prune_find_source api remote_refs refname [] error = Inr (error, False)"
| "prune_find_source api remote_refs refname (spec # specs) error =
     (if \<not> git_refspec_dst_matches api spec refname then
        prune_find_source api remote_refs refname specs error
      else
        (case git_refspec_rtransform api spec refname of
           Inl error \<Rightarrow> Inl error
         | Inr buf \<Rightarrow>
             let error = git_vector_bsearch remote_refs buf in
             if error < 0 \<and> error \<noteq> GIT_ENOTFOUND then Inl error
             else if error = GIT_ENOTFOUND then
               prune_find_source api remote_refs refname specs error
             else Inr (0, True)))"

text \<open>The first loop: the candidates afterwards, \<open>None\<close> for a removed one.\<close>

fun prune_mark ::
  "refspec_api \<Rightarrow> git_remote_head list \<Rightarrow> git_refspec list \<Rightarrow> string list \<Rightarrow> int \<Rightarrow>
   int + (int \<times> string option list)" where
  "prune_mark api remote_refs specs [] error = Inr (error, [])"
| "prune_mark api remote_refs specs (refname # candidates) error =
     (case prune_find_source api remote_refs refname specs error of
        Inl error \<Rightarrow> Inl error
      | Inr (error, found) \<Rightarrow>
          (case prune_mark api remote_refs specs candidates error of
             Inl error \<Rightarrow> Inl error
           | Inr (error, marked) \<Rightarrow>
               Inr (error, (if found then None else Some refname) # marked)))"

text \<open>
  The second loop, over the candidates that are left; both the end of the loop and the
  jump to \<^verbatim>\<open>cleanup\<close> return the value of \<^verbatim>\<open>error\<close>.
\<close>

fun prune_delete ::
  "git_remote_callbacks option \<Rightarrow> string option list \<Rightarrow> int \<Rightarrow> git_repository \<Rightarrow>
   int \<times> git_repository" where
  "prune_delete callbacks [] error repo = (error, repo)"
| "prune_delete callbacks (None # candidates) error repo =
     prune_delete callbacks candidates error repo"
| "prune_delete callbacks (Some refname # candidates) error repo =
     (case git_reference_lookup repo refname of
        Inl error \<Rightarrow>
          if error = GIT_ENOTFOUND then prune_delete callbacks candidates error repo
          else (error, repo)
      | Inr (Symbolic target) \<Rightarrow> prune_delete callbacks candidates 0 repo
      | Inr (Direct oid) \<Rightarrow>
          (case git_reference_delete repo refname of
             (error, repo) \<Rightarrow>
               if error < 0 then (error, repo)
               else
                 (case (case callbacks of
                          None \<Rightarrow> (error, repo)
                        | Some cbs \<Rightarrow>
                            (case update_tips cbs of
                               None \<Rightarrow> (error, repo)
                             | Some f \<Rightarrow> call_update_tips f refname oid zero_id repo)) of
                    (error, repo) \<Rightarrow>
                      if error < 0 then (error, repo)
                      else prune_delete callbacks candidates error repo)))"

definition git_remote_prune ::
  "refspec_api \<Rightarrow> 'a git_remote_scheme \<Rightarrow> git_remote_callbacks option \<Rightarrow> git_repository \<Rightarrow>
   int \<times> git_repository" where
  "git_remote_prune api remote callbacks repo =
     (if (case callbacks of
            None \<Rightarrow> False
          | Some cbs \<Rightarrow>
              git_error__check_version (cb_version cbs) GIT_REMOTE_CALLBACKS_VERSION < 0)
      then (- 1, repo)
      else
        (case ls_to_vector remote of
           Inl error \<Rightarrow> (error, repo)
         | Inr remote_refs \<Rightarrow>
             (case prune_candidates api remote repo of
                Inl error \<Rightarrow> (error, repo)
              | Inr candidates \<Rightarrow>
                  (case prune_mark api remote_refs (active_refspecs remote) candidates 0 of
                     Inl error \<Rightarrow> (error, repo)
                   | Inr (error, candidates) \<Rightarrow>
                       prune_delete callbacks candidates error repo))))"

text \<open>
  The references that pruning removes, given the advertised heads: the name
  destination-matches an active fetch refspec; under no active refspec whose destination
  it matches is its reverse transform an advertised name; and the reference is direct.
\<close>

definition prune_target ::
  "refspec_api \<Rightarrow> 'a git_remote_scheme \<Rightarrow> git_remote_head list \<Rightarrow> string \<Rightarrow> git_reference \<Rightarrow> bool" where
  "prune_target api remote heads refname ref \<longleftrightarrow>
     (\<exists>spec \<in> set (active_refspecs remote).
        \<not> spec_push spec \<and> git_refspec_dst_matches api spec refname) \<and>
     (\<forall>spec \<in> set (active_refspecs remote).
        git_refspec_dst_matches api spec refname \<longrightarrow>
        (case git_refspec_rtransform api spec refname of
           Inl error \<Rightarrow> True
         | Inr source \<Rightarrow> source \<notin> head_name ` set heads)) \<and>
     (case ref of Direct oid \<Rightarrow> True | Symbolic target \<Rightarrow> False)"

text \<open>The events of the removal of one reference: the deletion, then the call of the hook.\<close>

definition prune_target_events ::
  "git_remote_callbacks option \<Rightarrow> string \<Rightarrow> git_reference \<Rightarrow> event list" where
  "prune_target_events callbacks refname ref =
     (case ref of
        Symbolic target \<Rightarrow> []
      | Direct oid \<Rightarrow>
          Reference_delete refname 0 #
          (case callbacks of
             None \<Rightarrow> []
           | Some cbs \<Rightarrow>
               (case update_tips cbs of
                  None \<Rightarrow> []
                | Some f \<Rightarrow> [Update_tips refname oid zero_id (f refname oid zero_id)])))"

text \<open>
  Whether a candidate finds its source: under some active refspec whose destination it
  matches, its reverse transform is the name of an advertised head.
\<close>

definition prune_advertised ::
  "refspec_api \<Rightarrow> git_remote_head list \<Rightarrow> git_refspec list \<Rightarrow> string \<Rightarrow> bool" where
  "prune_advertised api heads specs refname \<longleftrightarrow>
     (\<exists>spec \<in> set specs.
        git_refspec_dst_matches api spec refname \<and>
        (case git_refspec_rtransform api spec refname of
           Inl error \<Rightarrow> False
         | Inr source \<Rightarrow> source \<in> head_name ` set heads))"

fun is_direct :: "git_reference \<Rightarrow> bool" where
  "is_direct (Direct oid) = True"
| "is_direct (Symbolic target) = False"

text \<open>
  The caller's \<^verbatim>\<open>update_tips\<close> hook, if there is one, never vetoes a removal: it does not
  return a negative code when called with the all-zero id as the new id.
\<close>

definition hook_accepts :: "git_remote_callbacks option \<Rightarrow> bool" where
  "hook_accepts callbacks \<longleftrightarrow>
     (case callbacks of
        None \<Rightarrow> True
      | Some cbs \<Rightarrow>
          (case update_tips cbs of
             None \<Rightarrow> True
           | Some f \<Rightarrow> \<forall>n oid. 0 \<le> f n oid zero_id))"

text \<open>
  The events of the second loop for one entry of the candidate list, read against the
  reference store \<open>refs\<close>.
\<close>

definition candidate_events ::
  "git_remote_callbacks option \<Rightarrow> (string \<times> git_reference) list \<Rightarrow> string option \<Rightarrow> event list" where
  "candidate_events callbacks refs candidate =
     (case candidate of
        None \<Rightarrow> []
      | Some n \<Rightarrow>
          (case map_of refs n of
             None \<Rightarrow> []
           | Some r \<Rightarrow> prune_target_events callbacks n r))"

text \<open>
  The names in the candidate list that are left (not \<^verbatim>\<open>NULL\<close>).
\<close>

definition candidate_names :: "string option list \<Rightarrow> string list" where
  "candidate_names candidates =
     concat (map (\<lambda>c. case c of None \<Rightarrow> [] | Some n \<Rightarrow> [n]) candidates)"

text \<open>
  The repository after the second loop has gone through the candidate list.
\<close>

definition pruned ::
  "git_remote_callbacks option \<Rightarrow> string option list \<Rightarrow> git_repository \<Rightarrow> git_repository" where
  "pruned callbacks candidates repo =
     repo\<lparr>repo_refs :=
            filter (\<lambda>(n, r). \<not> (Some n \<in> set candidates \<and> is_direct r)) (repo_refs repo),
          repo_trace :=
            repo_trace repo @ concat (map (candidate_events callbacks (repo_refs repo)) candidates)\<rparr>"

text \<open>
  The version test of \<^verbatim>\<open>GIT_ERROR_CHECK_VERSION\<close> passes.
\<close>

definition callbacks_version_ok :: "git_remote_callbacks option \<Rightarrow> bool" where
  "callbacks_version_ok callbacks \<longleftrightarrow>
     (case callbacks of
        None \<Rightarrow> True
      | Some cbs \<Rightarrow> 0 < cb_version cbs \<and> cb_version cbs \<le> GIT_REMOTE_CALLBACKS_VERSION)"

text \<open>Values for the closed examples of pruning.\<close>

definition pull_spec :: git_refspec where
  "pull_spec =
     \<lparr>spec_string = ''+refs/pull/*:refs/remotes/origin/pr/*'', spec_src = ''refs/pull/*'',
      spec_dst = Some ''refs/remotes/origin/pr/*'', spec_force = True, spec_push = False,
      spec_pattern = True\<rparr>"

definition origin_remote :: git_remote where
  "origin_remote =
     \<lparr>remote_name = Some ''origin'', remote_url = Some ''https://example.test/repo.git'',
      remote_pushurl = None, has_repo = True, refspecs = [origin_heads_spec],
      active_refspecs = [origin_heads_spec], passive_refspecs = [],
      download_tags = GIT_REMOTE_DOWNLOAD_TAGS_AUTO, prune_refs = True,
      remote_transport = Some \<lparr>transport_ls = Inr
        [\<lparr>head_name = ''refs/heads/main'', head_oid = 11, symref_target = None\<rparr>]\<rparr>\<rparr>"

definition stale_repository :: git_repository where
  "stale_repository =
     \<lparr>repo_refs =
        [(''refs/remotes/origin/main'', Direct 11),
         (''refs/remotes/origin/stale'', Direct 13),
         (''refs/remotes/origin/HEAD'', Symbolic ''refs/remotes/origin/main'')],
      repo_odb = Inr [11, 13], repo_config = Inr [],
      config_write_result = (\<lambda>nm v. 0), repo_trace = []\<rparr>"

definition overlapping_remote :: git_remote where
  "overlapping_remote =
     origin_remote
       \<lparr>refspecs := [origin_heads_spec, pull_spec],
        active_refspecs := [origin_heads_spec, pull_spec],
        remote_transport := Some \<lparr>transport_ls = Inr
          [\<lparr>head_name = ''refs/pull/1'', head_oid = 9, symref_target = None\<rparr>]\<rparr>\<rparr>"

definition pull_repository :: git_repository where
  "pull_repository =
     \<lparr>repo_refs = [(''refs/remotes/origin/pr/1'', Direct 9)],
      repo_odb = Inr [9], repo_config = Inr [],
      config_write_result = (\<lambda>nm v. 0), repo_trace = []\<rparr>"

subsection \<open>The configuration store\<close>


definition git_repository_config_snapshot :: "git_repository \<Rightarrow> int + git_config" where
  "git_repository_config_snapshot repo = repo_config repo"

definition config_multivar :: "git_config \<Rightarrow> string \<Rightarrow> string list" where
  "config_multivar config key =
     map entry_value (filter (\<lambda>entry. entry_name entry = key) config)"

definition git_config_get_string :: "git_config \<Rightarrow> string \<Rightarrow> int + string" where
  "git_config_get_string config key =
     (case config_multivar config key of
        [] \<Rightarrow> Inl GIT_ENOTFOUND
      | v # vs \<Rightarrow> Inr (last (v # vs)))"

definition git_config__lookup_entry :: "git_config \<Rightarrow> string \<Rightarrow> int + string option" where
  "git_config__lookup_entry config key =
     (case config_multivar config key of
        [] \<Rightarrow> Inr None
      | v # vs \<Rightarrow> Inr (Some (last (v # vs))))"

definition git_config_parse_bool :: "string \<Rightarrow> int + bool" where
  "git_config_parse_bool v =
     (if v \<in> {''true'', ''yes'', ''on'', ''1''} then Inr True
      else if v \<in> {''false'', ''no'', ''off'', ''0'', []} then Inr False
      else Inl (- 1))"

definition git_config_get_bool :: "git_config \<Rightarrow> string \<Rightarrow> int + bool" where
  "git_config_get_bool config key =
     (case git_config_get_string config key of
        Inl error \<Rightarrow> Inl error
      | Inr v \<Rightarrow> git_config_parse_bool v)"

fun set_entry :: "git_config \<Rightarrow> string \<Rightarrow> string \<Rightarrow> git_config" where
  "set_entry [] key v = [\<lparr>entry_name = key, entry_value = v\<rparr>]"
| "set_entry (entry # config) key v =
     (if entry_name entry = key then entry\<lparr>entry_value := v\<rparr> # config
      else entry # set_entry config key v)"

definition git_config_set_string :: "git_repository \<Rightarrow> string \<Rightarrow> string \<Rightarrow> int \<times> git_repository" where
  "git_config_set_string repo key v =
     (case repo_config repo of
        Inl error \<Rightarrow> (error, repo)
      | Inr config \<Rightarrow>
          if config_write_result repo key v < 0 then (config_write_result repo key v, repo)
          else (0, repo\<lparr>repo_config := Inr (set_entry config key v)\<rparr>))"


subsection \<open>Adding refspecs\<close>

definition CONFIG_URL_FMT :: "string \<Rightarrow> string" where
  "CONFIG_URL_FMT nm = ''remote.'' @ nm @ ''.url''"
definition CONFIG_PUSHURL_FMT :: "string \<Rightarrow> string" where
  "CONFIG_PUSHURL_FMT nm = ''remote.'' @ nm @ ''.pushurl''"
definition CONFIG_FETCH_FMT :: "string \<Rightarrow> string" where
  "CONFIG_FETCH_FMT nm = ''remote.'' @ nm @ ''.fetch''"
definition CONFIG_PUSH_FMT :: "string \<Rightarrow> string" where
  "CONFIG_PUSH_FMT nm = ''remote.'' @ nm @ ''.push''"
definition CONFIG_TAGOPT_FMT :: "string \<Rightarrow> string" where
  "CONFIG_TAGOPT_FMT nm = ''remote.'' @ nm @ ''.tagopt''"

text \<open>\<^verbatim>\<open>add_refspec_to\<close>: the return code and the vector.\<close>

definition add_refspec_to ::
  "refspec_api \<Rightarrow> git_refspec list \<Rightarrow> string \<Rightarrow> bool \<Rightarrow> int \<times> git_refspec list" where
  "add_refspec_to api vector str is_fetch =
     (case git_refspec__parse api str is_fetch of
        None \<Rightarrow> (- 1, vector)
      | Some spec \<Rightarrow> (0, vector @ [spec\<lparr>spec_push := \<not> is_fetch\<rparr>]))"

definition add_refspec ::
  "refspec_api \<Rightarrow> git_remote \<Rightarrow> string \<Rightarrow> bool \<Rightarrow> int \<times> git_remote" where
  "add_refspec api remote str is_fetch =
     (case add_refspec_to api (refspecs remote) str is_fetch of
        (error, vector) \<Rightarrow> (error, remote\<lparr>refspecs := vector\<rparr>))"

text \<open>
  A remote name is a C string or \<^verbatim>\<open>NULL\<close>. \<open>c_str\<close> reads the characters of a pointer
  where the code has already excluded \<^verbatim>\<open>NULL\<close>.
\<close>

definition c_str :: "string option \<Rightarrow> string" where
  "c_str p = (case p of None \<Rightarrow> [] | Some s \<Rightarrow> s)"

definition git_remote_is_valid_name :: "refspec_api \<Rightarrow> string option \<Rightarrow> bool" where
  "git_remote_is_valid_name api nm0 =
     (case nm0 of
        None \<Rightarrow> False
      | Some nm \<Rightarrow>
          if nm = [] then False
          else
            (case git_refspec__parse api (''refs/heads/test:refs/remotes/'' @ nm @ ''/test'') True of
               None \<Rightarrow> False
             | Some refspec \<Rightarrow> True))"

definition ensure_remote_name_is_valid :: "refspec_api \<Rightarrow> string option \<Rightarrow> int" where
  "ensure_remote_name_is_valid api nm =
     (if \<not> git_remote_is_valid_name api nm then GIT_EINVALIDSPEC else 0)"






subsection \<open>Looking up a remote\<close>

text \<open>
  Modelled from the spec: \<^verbatim>\<open>git_config_get_multivar_foreach\<close> (\<^verbatim>\<open>config.c\<close>, not among the
  sources) calls the callback on the values of all entries of the name, in order, stops
  at the first call that does not return 0 and returns its code; it is not-found when
  there is no entry of the name.
\<close>

fun multivar_foreach :: "(string \<Rightarrow> 's \<Rightarrow> int \<times> 's) \<Rightarrow> string list \<Rightarrow> 's \<Rightarrow> int \<times> 's" where
  "multivar_foreach cb [] payload = (0, payload)"
| "multivar_foreach cb (v # vs) payload =
     (case cb v payload of
        (error, payload') \<Rightarrow>
          if error \<noteq> 0 then (error, payload') else multivar_foreach cb vs payload')"

definition git_config_get_multivar_foreach ::
  "git_config \<Rightarrow> string \<Rightarrow> (string \<Rightarrow> 's \<Rightarrow> int \<times> 's) \<Rightarrow> 's \<Rightarrow> int \<times> 's" where
  "git_config_get_multivar_foreach config key cb payload =
     (case config_multivar config key of
        [] \<Rightarrow> (GIT_ENOTFOUND, payload)
      | v # vs \<Rightarrow> multivar_foreach cb (v # vs) payload)"

text \<open>
  \<^verbatim>\<open>refspec_cb\<close>, with the field \<^verbatim>\<open>fetch\<close> of its payload as an argument and the remote
  of its payload as the state.
\<close>

definition refspec_cb :: "refspec_api \<Rightarrow> bool \<Rightarrow> string \<Rightarrow> git_remote \<Rightarrow> int \<times> git_remote" where
  "refspec_cb api fetch v remote = add_refspec api remote v fetch"

text \<open>
  \<^verbatim>\<open>get_optional_config\<close>. The payload is the string \<^verbatim>\<open>val\<close> when there is no callback,
  and the data of the callback otherwise: the model passes both. The result is the return
  code, the value written to \<^verbatim>\<open>found\<close>, and the payload.
\<close>

definition get_optional_config ::
  "git_config \<Rightarrow> string \<Rightarrow> (string \<Rightarrow> 's \<Rightarrow> int \<times> 's) option \<Rightarrow> string option \<times> 's \<Rightarrow>
   int \<times> bool \<times> string option \<times> 's" where
  "get_optional_config config key cb payload =
     (case payload of (val, data) \<Rightarrow>
        (case (case cb of
                 Some f \<Rightarrow>
                   (case git_config_get_multivar_foreach config key f data of
                      (error, data') \<Rightarrow> (error, val, data'))
               | None \<Rightarrow>
                   (case git_config_get_string config key of
                      Inl error \<Rightarrow> (error, val, data)
                    | Inr v \<Rightarrow> (0, Some v, data))) of
           (error, val', data') \<Rightarrow>
             (if error = GIT_ENOTFOUND then 0 else error, error = 0, val', data')))"

definition download_tags_value :: "git_remote \<Rightarrow> git_config \<Rightarrow> int \<times> git_remote" where
  "download_tags_value remote cfg =
     (case git_config__lookup_entry cfg (CONFIG_TAGOPT_FMT (c_str (remote_name remote))) of
        Inl error \<Rightarrow> (error, remote)
      | Inr ce \<Rightarrow>
          (0, case ce of
                None \<Rightarrow> remote
              | Some v \<Rightarrow>
                  if v = ''--no-tags'' then remote\<lparr>download_tags := GIT_REMOTE_DOWNLOAD_TAGS_NONE\<rparr>
                  else if v = ''--tags'' then remote\<lparr>download_tags := GIT_REMOTE_DOWNLOAD_TAGS_ALL\<rparr>
                  else remote))"

definition lookup_remote_prune_config ::
  "git_remote \<Rightarrow> git_config \<Rightarrow> string \<Rightarrow> int \<times> git_remote" where
  "lookup_remote_prune_config remote config nm =
     (case git_config_get_bool config (''remote.'' @ nm @ ''.prune'') of
        Inr b \<Rightarrow> (0, remote\<lparr>prune_refs := b\<rparr>)
      | Inl error \<Rightarrow>
          if error = GIT_ENOTFOUND then
            (case git_config_get_bool config ''fetch.prune'' of
               Inr b \<Rightarrow> (0, remote\<lparr>prune_refs := b\<rparr>)
             | Inl error \<Rightarrow> (if error = GIT_ENOTFOUND then 0 else error, remote))
          else (error, remote))"

text \<open>\<^verbatim>\<open>dwim_refspecs\<close>: the return code and the vector \<^verbatim>\<open>out\<close>.\<close>

fun dwim_refspecs ::
  "refspec_api \<Rightarrow> git_refspec list \<Rightarrow> git_refspec list \<Rightarrow> git_remote_head list \<Rightarrow>
   int \<times> git_refspec list" where
  "dwim_refspecs api out [] refs = (0, out)"
| "dwim_refspecs api out (spec # rest) refs =
     (case git_refspec__dwim_one api spec refs of
        Inl error \<Rightarrow> (- 1, out)
      | Inr added \<Rightarrow> dwim_refspecs api (out @ added) rest refs)"

text \<open>
  \<^verbatim>\<open>git_remote_lookup\<close> in two parts. \<open>Inl\<close> is the negative code that the function
  returns, \<open>Inr\<close> the remote written to \<^verbatim>\<open>out\<close> when it returns 0. The name is not
  \<^verbatim>\<open>NULL\<close> (the function asserts it). \<^verbatim>\<open>GIT_ERROR_CHECK_ALLOC\<close> returns \<open>-1\<close> for a
  \<^verbatim>\<open>NULL\<close> pointer. Running out of memory is not modelled.

  The first part: the remote after the two URLs are read.
\<close>

definition git_remote_lookup_urls :: "git_config \<Rightarrow> string \<Rightarrow> git_remote \<Rightarrow> int + git_remote" where
  "git_remote_lookup_urls config nm remote =
     (case get_optional_config config (CONFIG_URL_FMT nm) None (None, remote) of
        (error, found, val, remote) \<Rightarrow>
          if error < 0 then Inl error
          else
            let optional_setting_found = found;
                remote = remote\<lparr>has_repo := True,
                                download_tags := GIT_REMOTE_DOWNLOAD_TAGS_AUTO\<rparr>
            in
            if found \<and> 0 < length (c_str val) \<and>
               apply_insteadof config (c_str val) GIT_DIRECTION_FETCH = None
            then Inl (- 1)
            else
              let remote =
                    (if found \<and> 0 < length (c_str val)
                     then remote\<lparr>remote_url :=
                            apply_insteadof config (c_str val) GIT_DIRECTION_FETCH\<rparr>
                     else remote)
              in
              (case get_optional_config config (CONFIG_PUSHURL_FMT nm) None (None, remote) of
                 (error, found, val, remote) \<Rightarrow>
                   if error < 0 then Inl error
                   else
                     let optional_setting_found = optional_setting_found \<or> found in
                     if \<not> optional_setting_found then Inl GIT_ENOTFOUND
                     else if found \<and> 0 < length (c_str val) \<and>
                        apply_insteadof config (c_str val) GIT_DIRECTION_PUSH = None
                     then Inl (- 1)
                     else
                       Inr (if found \<and> 0 < length (c_str val)
                            then remote\<lparr>remote_pushurl :=
                                   apply_insteadof config (c_str val) GIT_DIRECTION_PUSH\<rparr>
                            else remote)))"

text \<open>The second part: the refspecs, the tag and prune settings, and the active refspecs.\<close>

definition git_remote_lookup_settings ::
  "refspec_api \<Rightarrow> git_config \<Rightarrow> string \<Rightarrow> git_remote \<Rightarrow> int + git_remote" where
  "git_remote_lookup_settings api config nm remote =
     (case get_optional_config config (CONFIG_FETCH_FMT nm) (Some (refspec_cb api True))
             (None, remote) of
        (error, found, val, remote) \<Rightarrow>
          if error < 0 then Inl error
          else
            (case get_optional_config config (CONFIG_PUSH_FMT nm) (Some (refspec_cb api False))
                    (None, remote) of
               (error, found, val, remote) \<Rightarrow>
                 if error < 0 then Inl error
                 else
                   (case download_tags_value remote config of
                      (error, remote) \<Rightarrow>
                        if error < 0 then Inl error
                        else
                          (case lookup_remote_prune_config remote config nm of
                             (error, remote) \<Rightarrow>
                               if error < 0 then Inl error
                               else
                                 (case dwim_refspecs api (active_refspecs remote)
                                         (refspecs remote) [] of
                                    (error, out) \<Rightarrow>
                                      if error < 0 then Inl error
                                      else Inr (remote\<lparr>active_refspecs := out\<rparr>))))))"

definition git_remote_lookup :: "refspec_api \<Rightarrow> git_repository \<Rightarrow> string \<Rightarrow> int + git_remote" where
  "git_remote_lookup api repo nm =
     (if ensure_remote_name_is_valid api (Some nm) < 0
      then Inl (ensure_remote_name_is_valid api (Some nm))
      else
        (case git_repository_config_snapshot repo of
           Inl error \<Rightarrow> Inl error
         | Inr config \<Rightarrow>
             (case git_remote_lookup_urls config nm
                     \<lparr>remote_name = Some nm, remote_url = None, remote_pushurl = None,
                      has_repo = False, refspecs = [], active_refspecs = [],
                      passive_refspecs = [],
                      download_tags = GIT_REMOTE_DOWNLOAD_TAGS_UNSPECIFIED,
                      prune_refs = False, remote_transport = None\<rparr> of
                Inl error \<Rightarrow> Inl error
              | Inr remote \<Rightarrow> git_remote_lookup_settings api config nm remote)))"

text \<open>
  What the configuration says about the remote \<open>nm\<close>: whether a key is set, the refspecs
  of the \<^verbatim>\<open>fetch\<close> and \<^verbatim>\<open>push\<close> keys in order, the URL of a key after the rewrite, the tag
  policy and the prune setting.
\<close>

definition config_is_set :: "git_config \<Rightarrow> string \<Rightarrow> bool" where
  "config_is_set config key \<longleftrightarrow> config_multivar config key \<noteq> []"

definition configured_refspecs :: "refspec_api \<Rightarrow> git_config \<Rightarrow> string \<Rightarrow> git_refspec list" where
  "configured_refspecs api config nm =
     map (\<lambda>v. (the (git_refspec__parse api v True))\<lparr>spec_push := False\<rparr>)
       (config_multivar config (CONFIG_FETCH_FMT nm)) @
     map (\<lambda>v. (the (git_refspec__parse api v False))\<lparr>spec_push := True\<rparr>)
       (config_multivar config (CONFIG_PUSH_FMT nm))"

definition configured_url :: "git_config \<Rightarrow> string \<Rightarrow> git_direction \<Rightarrow> string option" where
  "configured_url config key direction =
     (case config_multivar config key of
        [] \<Rightarrow> None
      | v # vs \<Rightarrow>
          if last (v # vs) = [] then None else apply_insteadof config (last (v # vs)) direction)"

definition configured_tags :: "git_config \<Rightarrow> string \<Rightarrow> git_remote_autotag_option_t" where
  "configured_tags config nm =
     (case config_multivar config (CONFIG_TAGOPT_FMT nm) of
        [] \<Rightarrow> GIT_REMOTE_DOWNLOAD_TAGS_AUTO
      | v # vs \<Rightarrow>
          if last (v # vs) = ''--no-tags'' then GIT_REMOTE_DOWNLOAD_TAGS_NONE
          else if last (v # vs) = ''--tags'' then GIT_REMOTE_DOWNLOAD_TAGS_ALL
          else GIT_REMOTE_DOWNLOAD_TAGS_AUTO)"

definition configured_prune :: "git_config \<Rightarrow> string \<Rightarrow> int + bool" where
  "configured_prune config nm =
     (case config_multivar config (''remote.'' @ nm @ ''.prune'') of
        [] \<Rightarrow>
          (case config_multivar config ''fetch.prune'' of
             [] \<Rightarrow> Inr False
           | v # vs \<Rightarrow> git_config_parse_bool (last (v # vs)))
      | v # vs \<Rightarrow> git_config_parse_bool (last (v # vs)))"

text \<open>
  Values for the closed examples of the lookup: a repository that configures the remote
  \<^verbatim>\<open>origin\<close>, and one whose fetch refspec for \<^verbatim>\<open>origin\<close> does not parse (a wildcard source
  with a literal destination).
\<close>

definition configured_repository :: git_repository where
  "configured_repository =
     \<lparr>repo_refs = [], repo_odb = Inr [],
      repo_config = Inr
        [\<lparr>entry_name = ''remote.origin.url'', entry_value = ''https://example.com/repo.git''\<rparr>,
         \<lparr>entry_name = ''remote.origin.fetch'',
          entry_value = ''+refs/heads/*:refs/remotes/origin/*''\<rparr>],
      config_write_result = (\<lambda>nm v. 0), repo_trace = []\<rparr>"

definition misconfigured_repository :: git_repository where
  "misconfigured_repository =
     \<lparr>repo_refs = [], repo_odb = Inr [],
      repo_config = Inr
        [\<lparr>entry_name = ''remote.origin.url'', entry_value = ''https://example.com/repo.git''\<rparr>,
         \<lparr>entry_name = ''remote.origin.fetch'',
          entry_value = ''refs/heads/*:refs/remotes/origin/main''\<rparr>],
      config_write_result = (\<lambda>nm v. 0), repo_trace = []\<rparr>"

section \<open>Theorems\<close>

subsection \<open>C8: the bounded pending-callback stack\<close>

text \<open>
  C8. The pending-callback stack has a fixed maximum depth, the size of the array. A push
  always has a defined result, so it never writes outside the array, and it never changes
  the array's size. On a stack that already holds as many entries as the array has slots
  the push fails with \<^verbatim>\<open>GIT_ERROR\<close> and leaves the stack as it was. Below that depth it
  succeeds, stores the callback in the first free slot and keeps the depth within the
  array's size.
\<close>

theorem add_performcb_bounded:
  "\<exists>ret remote'.
     git_remote_add_performcb remote cb = Some (ret, remote') \<and>
     length (perform_callbacks remote') = length (perform_callbacks remote) \<and>
     (length (perform_callbacks remote) \<le> perform_num_cb remote \<longrightarrow>
        ret = GIT_ERROR \<and> remote' = remote) \<and>
     (perform_num_cb remote < length (perform_callbacks remote) \<longrightarrow>
        ret = GIT_OK \<and>
        perform_num_cb remote' = perform_num_cb remote + 1 \<and>
        perform_num_cb remote' \<le> length (perform_callbacks remote') \<and>
        pending remote' = pending remote @ [cb] \<and>
        perform_callbacks remote' = (perform_callbacks remote)[perform_num_cb remote := cb])"
  by (auto simp: git_remote_add_performcb_def array_store_def pending_def Let_def
      take_Suc_conv_app_nth)

theorem add_performcb_bounded_witness:
  "git_remote_add_performcb
     \<lparr>perform_callbacks = [Some Connect_perform, Some Connect_performurl], perform_num_cb = 2\<rparr>
     (Some (Foreign_cb 0))
   = Some (GIT_ERROR,
       \<lparr>perform_callbacks = [Some Connect_perform, Some Connect_performurl], perform_num_cb = 2\<rparr>)
   \<and>
   git_remote_add_performcb
     \<lparr>perform_callbacks = [Some Connect_perform, None], perform_num_cb = 1\<rparr>
     (Some (Foreign_cb 0))
   = Some (GIT_OK,
       \<lparr>perform_callbacks = [Some Connect_perform, Some (Foreign_cb 0)], perform_num_cb = 2\<rparr>)"
  using add_performcb_bounded
    [of "\<lparr>perform_callbacks = [Some Connect_perform, Some Connect_performurl], perform_num_cb = 2\<rparr>"
        "Some (Foreign_cb 0)"]
    add_performcb_bounded
    [of "\<lparr>perform_callbacks = [Some Connect_perform, None], perform_num_cb = 1\<rparr>"
        "Some (Foreign_cb 0)"]
  by (auto simp: git_remote_add_performcb_def array_store_def)

subsection \<open>C9: the default branch\<close>

lemma default_branch_loop_Some:
  "map_option head_name (default_branch_loop i hs (Some g)) =
     Some (if ''refs/heads/master'' \<in> head_name ` set (default_branch_candidates i hs)
           then ''refs/heads/master'' else head_name g)"
  by (induction hs)
    (auto simp: default_branch_candidates_def git__prefixcmp_def GIT_REFS_HEADS_DIR_def
      GIT_REFS_HEADS_MASTER_FILE_def)

lemma default_branch_loop_None:
  "map_option head_name (default_branch_loop i hs None) =
     (let cands = default_branch_candidates i hs in
      if cands = [] then None
      else if ''refs/heads/master'' \<in> head_name ` set cands then Some ''refs/heads/master''
      else Some (head_name (hd cands)))"
proof (induction hs)
  case Nil
  show ?case by (simp add: default_branch_candidates_def)
next
  case (Cons h hs)
  show ?case
  proof (cases "prefix ''refs/heads/'' (head_name h) \<and> head_oid h = i")
    case True
    then have "default_branch_loop i (h # hs) None = default_branch_loop i hs (Some h)"
      by (auto simp: git__prefixcmp_def GIT_REFS_HEADS_DIR_def)
    moreover have "default_branch_candidates i (h # hs) = h # default_branch_candidates i hs"
      using True by (simp add: default_branch_candidates_def)
    ultimately show ?thesis
      by (auto simp: default_branch_loop_Some Let_def)
  next
    case False
    then have "default_branch_loop i (h # hs) None = default_branch_loop i hs None"
      by (auto simp: git__prefixcmp_def GIT_REFS_HEADS_DIR_def)
    moreover have "default_branch_candidates i (h # hs) = default_branch_candidates i hs"
      using False by (auto simp: default_branch_candidates_def)
    ultimately show ?thesis using Cons.IH by simp
  qed
qed

text \<open>
  C9 (amended). With the heads that the transport advertises: no heads, or a first head
  that is not literally \<^verbatim>\<open>HEAD\<close>, is not-found. A first head \<^verbatim>\<open>HEAD\<close> with a symbolic target answers
  that target. Otherwise the candidates are all advertised heads under \<^verbatim>\<open>refs/heads/\<close>
  with the id of \<^verbatim>\<open>HEAD\<close>: the answer is \<^verbatim>\<open>refs/heads/master\<close> if it is a candidate, else
  the first candidate, and not-found when there is none. The answer is appended to the
  caller's buffer, which is the answer itself for the empty buffer.
\<close>

theorem default_branch_claim:
  "git_remote_default_branch out (Some \<lparr>transport_ls = Inr heads\<rparr>) =
     (case heads of
        [] \<Rightarrow> (GIT_ENOTFOUND, out)
      | first # rest \<Rightarrow>
          if head_name first \<noteq> ''HEAD'' then (GIT_ENOTFOUND, out)
          else
            (case symref_target first of
               Some target \<Rightarrow> (0, out @ target)
             | None \<Rightarrow>
                 let cands = default_branch_candidates (head_oid first) heads in
                 if ''refs/heads/master'' \<in> head_name ` set cands
                 then (0, out @ ''refs/heads/master'')
                 else if cands \<noteq> [] then (0, out @ head_name (hd cands))
                 else (GIT_ENOTFOUND, out)))"
proof (cases heads)
  case Nil
  then show ?thesis by (simp add: git_remote_default_branch_def git_remote_ls_def)
next
  case (Cons first rest)
  show ?thesis
  proof (cases "head_name first = ''HEAD''")
    case False
    then show ?thesis
      by (simp add: Cons git_remote_default_branch_def git_remote_ls_def GIT_HEAD_FILE_def)
  next
    case True
    show ?thesis
    proof (cases "symref_target first")
      case (Some target)
      then show ?thesis
        using True
        by (simp add: Cons git_remote_default_branch_def git_remote_ls_def GIT_HEAD_FILE_def)
    next
      case None
      have same: "default_branch_candidates (head_oid first) (first # rest) =
          default_branch_candidates (head_oid first) rest"
        using True by (simp add: default_branch_candidates_def)
      have "git_remote_default_branch out (Some \<lparr>transport_ls = Inr heads\<rparr>) =
          (case default_branch_loop (head_oid first) rest None of
             None \<Rightarrow> (GIT_ENOTFOUND, out)
           | Some guess \<Rightarrow> (0, out @ head_name guess))"
        using True None
        by (simp add: Cons git_remote_default_branch_def git_remote_ls_def GIT_HEAD_FILE_def)
      also have "\<dots> =
          (case map_option head_name (default_branch_loop (head_oid first) rest None) of
             None \<Rightarrow> (GIT_ENOTFOUND, out)
           | Some n \<Rightarrow> (0, out @ n))"
        by (simp split: option.splits)
      finally show ?thesis
        using True None
        by (auto simp: Cons default_branch_loop_None same Let_def)
    qed
  qed
qed

theorem default_branch_claim_witness:
  "git_remote_default_branch []
     (Some \<lparr>transport_ls = Inr
        [\<lparr>head_name = ''HEAD'', head_oid = 7, symref_target = None\<rparr>,
         \<lparr>head_name = ''refs/heads/dev'', head_oid = 7, symref_target = None\<rparr>,
         \<lparr>head_name = ''refs/tags/v1'', head_oid = 7, symref_target = None\<rparr>,
         \<lparr>head_name = ''refs/heads/master'', head_oid = 7, symref_target = None\<rparr>]\<rparr>)
   = (0, ''refs/heads/master'')"
  using default_branch_claim
    [of "[]"
      "[\<lparr>head_name = ''HEAD'', head_oid = 7, symref_target = None\<rparr>,
        \<lparr>head_name = ''refs/heads/dev'', head_oid = 7, symref_target = None\<rparr>,
        \<lparr>head_name = ''refs/tags/v1'', head_oid = 7, symref_target = None\<rparr>,
        \<lparr>head_name = ''refs/heads/master'', head_oid = 7, symref_target = None\<rparr>]"]
  by (simp add: default_branch_candidates_def)

text \<open>
  C9 as stated fails when the first advertised head is not \<^verbatim>\<open>HEAD\<close>: the first head
  \<^verbatim>\<open>refs/heads/master\<close> carries no symbolic target, and it is an advertised head under
  \<^verbatim>\<open>refs/heads/\<close> with the id of \<^verbatim>\<open>HEAD\<close>, so it is a candidate; the call is not-found
  and leaves the buffer as it was.
\<close>

theorem default_branch_head_not_first_counterexample:
  "default_branch_candidates 7
     [\<lparr>head_name = ''refs/heads/master'', head_oid = 7, symref_target = None\<rparr>,
      \<lparr>head_name = ''HEAD'', head_oid = 7, symref_target = None\<rparr>]
   = [\<lparr>head_name = ''refs/heads/master'', head_oid = 7, symref_target = None\<rparr>] \<and>
   git_remote_default_branch []
     (Some \<lparr>transport_ls = Inr
        [\<lparr>head_name = ''refs/heads/master'', head_oid = 7, symref_target = None\<rparr>,
         \<lparr>head_name = ''HEAD'', head_oid = 7, symref_target = None\<rparr>]\<rparr>)
   = (GIT_ENOTFOUND, [])"
  by (simp add: default_branch_candidates_def git_remote_default_branch_def git_remote_ls_def
      GIT_HEAD_FILE_def GIT_REFS_HEADS_DIR_def git__prefixcmp_def)

subsection \<open>C2: the insteadOf rewrite\<close>

lemma insteadof_loop_result:
  "(list_all (\<lambda>x. length (entry_value x) \<le> m) (filter (\<lambda>e. prefix (entry_value e) url) es) \<and>
      insteadof_loop url pl sl es m r = (m, r))
   \<or> (\<exists>pre e post.
         filter (\<lambda>e. prefix (entry_value e) url) es = pre @ e # post \<and>
         list_all (\<lambda>x. length (entry_value x) < length (entry_value e)) pre \<and>
         list_all (\<lambda>x. length (entry_value x) \<le> length (entry_value e)) post \<and>
         m < length (entry_value e) \<and>
         insteadof_loop url pl sl es m r =
           (length (entry_value e),
            Some (take (length (entry_name e) - (pl + sl)) (drop pl (entry_name e)))))"
proof (induction es arbitrary: m r)
  case Nil
  show ?case by simp
next
  case (Cons e0 es)
  let ?P = "\<lambda>e. prefix (entry_value e) url"
  show ?case
  proof (cases "?P e0")
    case False
    then show ?thesis using Cons.IH [of m r] by (simp add: git__prefixcmp_def)
  next
    case True
    show ?thesis
    proof (cases "length (entry_value e0) \<le> m")
      case le: True
      have step: "insteadof_loop url pl sl (e0 # es) m r = insteadof_loop url pl sl es m r"
        using True le by (simp add: git__prefixcmp_def)
      from Cons.IH [of m r] show ?thesis
      proof
        assume "list_all (\<lambda>x. length (entry_value x) \<le> m) (filter ?P es) \<and>
          insteadof_loop url pl sl es m r = (m, r)"
        then show ?thesis using True le step by simp
      next
        assume "\<exists>pre e post. filter ?P es = pre @ e # post \<and>
          list_all (\<lambda>x. length (entry_value x) < length (entry_value e)) pre \<and>
          list_all (\<lambda>x. length (entry_value x) \<le> length (entry_value e)) post \<and>
          m < length (entry_value e) \<and>
          insteadof_loop url pl sl es m r =
            (length (entry_value e),
             Some (take (length (entry_name e) - (pl + sl)) (drop pl (entry_name e))))"
        then obtain pre e post where h:
          "filter ?P es = pre @ e # post"
          "list_all (\<lambda>x. length (entry_value x) < length (entry_value e)) pre"
          "list_all (\<lambda>x. length (entry_value x) \<le> length (entry_value e)) post"
          "m < length (entry_value e)"
          "insteadof_loop url pl sl es m r =
            (length (entry_value e),
             Some (take (length (entry_name e) - (pl + sl)) (drop pl (entry_name e))))"
          by blast
        have "filter ?P (e0 # es) = (e0 # pre) @ e # post" using True h(1) by simp
        moreover have "list_all (\<lambda>x. length (entry_value x) < length (entry_value e)) (e0 # pre)"
          using h(2) h(4) le by simp
        ultimately show ?thesis using h(3) h(4) h(5) step
          by (intro disjI2 exI [of _ "e0 # pre"] exI [of _ e] exI [of _ post]) simp
      qed
    next
      case gt: False
      let ?n = "length (entry_value e0)"
      let ?r = "Some (take (length (entry_name e0) - (pl + sl)) (drop pl (entry_name e0)))"
      have step: "insteadof_loop url pl sl (e0 # es) m r = insteadof_loop url pl sl es ?n ?r"
        using True gt by (simp add: git__prefixcmp_def Let_def)
      from Cons.IH [of ?n ?r] show ?thesis
      proof
        assume a: "list_all (\<lambda>x. length (entry_value x) \<le> ?n) (filter ?P es) \<and>
          insteadof_loop url pl sl es ?n ?r = (?n, ?r)"
        have "filter ?P (e0 # es) = [] @ e0 # filter ?P es" using True by simp
        moreover have "list_all (\<lambda>x. length (entry_value x) < ?n) []" by simp
        ultimately show ?thesis using a gt step
          by (intro disjI2 exI [of _ "[]"] exI [of _ e0] exI [of _ "filter ?P es"]) simp
      next
        assume "\<exists>pre e post. filter ?P es = pre @ e # post \<and>
          list_all (\<lambda>x. length (entry_value x) < length (entry_value e)) pre \<and>
          list_all (\<lambda>x. length (entry_value x) \<le> length (entry_value e)) post \<and>
          ?n < length (entry_value e) \<and>
          insteadof_loop url pl sl es ?n ?r =
            (length (entry_value e),
             Some (take (length (entry_name e) - (pl + sl)) (drop pl (entry_name e))))"
        then obtain pre e post where h:
          "filter ?P es = pre @ e # post"
          "list_all (\<lambda>x. length (entry_value x) < length (entry_value e)) pre"
          "list_all (\<lambda>x. length (entry_value x) \<le> length (entry_value e)) post"
          "?n < length (entry_value e)"
          "insteadof_loop url pl sl es ?n ?r =
            (length (entry_value e),
             Some (take (length (entry_name e) - (pl + sl)) (drop pl (entry_name e))))"
          by blast
        have "filter ?P (e0 # es) = (e0 # pre) @ e # post" using True h(1) by simp
        moreover have "list_all (\<lambda>x. length (entry_value x) < length (entry_value e)) (e0 # pre)"
          using h(2) h(4) by simp
        moreover have "m < length (entry_value e)" using gt h(4) by simp
        ultimately show ?thesis using h(3) h(5) step
          by (intro disjI2 exI [of _ "e0 # pre"] exI [of _ e] exI [of _ post]) simp
      qed
    qed
  qed
qed

lemma glob_replacement:
  assumes "glob_matches pfx sfx nm"
  shows "nm = pfx @ ''.'' @ take (length nm - (length pfx + 1 + (length sfx + 1))) (drop (length pfx + 1) nm) @ ''.'' @ sfx"
proof -
  from assms obtain t where t: "nm = (pfx @ ''.'') @ t"
    by (auto simp: glob_matches_def prefix_def)
  from assms obtain u where u: "nm = u @ (''.'' @ sfx)"
    by (auto simp: glob_matches_def suffix_def)
  from assms have len: "length pfx + 1 + (length sfx + 1) \<le> length nm"
    by (simp add: glob_matches_def)
  have "t = drop (length pfx + 1) nm" using t by simp
  moreover have "length t = length nm - (length pfx + 1)" using t by simp
  ultimately have "drop (length t - (length sfx + 1)) t = ''.'' @ sfx"
    using u len by simp
  then have "t = take (length t - (length sfx + 1)) t @ ''.'' @ sfx"
    by (metis append_take_drop_id)
  then show ?thesis using t \<open>t = drop (length pfx + 1) nm\<close> \<open>length t = length nm - (length pfx + 1)\<close>
    by (metis append.assoc diff_diff_left)
qed

lemma glob_replacement_url:
  assumes "glob_matches ''url'' sfx nm"
  shows "nm = ''url.'' @ take (length nm - (length PREFIX + 1 + (length sfx + 1))) (drop (length PREFIX + 1) nm) @ ''.'' @ sfx"
  using glob_replacement [OF assms] by (simp add: PREFIX_def)

text \<open>
  C2 (amended). The rewrite scans the entries named \<^verbatim>\<open>url.<replacement>.insteadof\<close>
  (\<^verbatim>\<open>pushinsteadof\<close> in the push direction) and keeps those whose value is a prefix of the
  URL. When none of them has a non-empty value, the URL is returned unchanged. Otherwise
  the chosen entry has the longest value, and among entries with equally long values it is
  the one met first in iteration: every candidate before it is strictly shorter, every
  candidate after it is at most as long. The result is the replacement taken from the
  chosen entry's name followed by the URL without the chosen prefix.
\<close>

theorem apply_insteadof_longest_first:
  "((\<forall>e \<in> set (insteadof_candidates config url direction). entry_value e = []) \<longrightarrow>
      apply_insteadof config url direction = Some url) \<and>
   ((\<exists>e \<in> set (insteadof_candidates config url direction). entry_value e \<noteq> []) \<longrightarrow>
      (\<exists>pre e post replacement.
         insteadof_candidates config url direction = pre @ e # post \<and>
         (\<forall>x \<in> set pre. length (entry_value x) < length (entry_value e)) \<and>
         (\<forall>x \<in> set post. length (entry_value x) \<le> length (entry_value e)) \<and>
         entry_name e = ''url.'' @ replacement @ ''.'' @ insteadof_suffix direction \<and>
         apply_insteadof config url direction =
           Some (replacement @ drop (length (entry_value e)) url)))"
proof -
  define sfx where "sfx = (if direction = GIT_DIRECTION_FETCH then SUFFIX_FETCH else SUFFIX_PUSH)"
  define es where "es = filter (\<lambda>entry. glob_matches PREFIX sfx (entry_name entry)) config"
  define pl where "pl = length PREFIX + 1"
  define sl where "sl = length sfx + 1"
  have sfx: "sfx = insteadof_suffix direction"
    by (simp add: sfx_def insteadof_suffix_def SUFFIX_FETCH_def SUFFIX_PUSH_def)
  have cands: "insteadof_candidates config url direction =
      filter (\<lambda>e. prefix (entry_value e) url) es"
    by (simp add: insteadof_candidates_def es_def sfx PREFIX_def)
  have run: "apply_insteadof config url direction =
      (case insteadof_loop url pl sl es 0 None of
         (match_length, replacement) \<Rightarrow>
           if match_length = 0 then Some url
           else (case replacement of None \<Rightarrow> None
                 | Some r \<Rightarrow> Some (r @ drop match_length url)))"
    by (simp add: apply_insteadof_def git_config_iterator_glob_new_def Let_def
        es_def pl_def sl_def sfx_def)
  from insteadof_loop_result [of 0 url es pl sl None]
  show ?thesis
  proof
    assume a: "list_all (\<lambda>x. length (entry_value x) \<le> 0) (filter (\<lambda>e. prefix (entry_value e) url) es) \<and>
      insteadof_loop url pl sl es 0 None = (0, None)"
    then have "\<forall>e \<in> set (insteadof_candidates config url direction). entry_value e = []"
      by (simp add: cands list_all_iff)
    moreover have "apply_insteadof config url direction = Some url"
      using a by (simp add: run)
    ultimately show ?thesis by blast
  next
    assume "\<exists>pre e post.
      filter (\<lambda>e. prefix (entry_value e) url) es = pre @ e # post \<and>
      list_all (\<lambda>x. length (entry_value x) < length (entry_value e)) pre \<and>
      list_all (\<lambda>x. length (entry_value x) \<le> length (entry_value e)) post \<and>
      0 < length (entry_value e) \<and>
      insteadof_loop url pl sl es 0 None =
        (length (entry_value e),
         Some (take (length (entry_name e) - (pl + sl)) (drop pl (entry_name e))))"
    then obtain pre e post where h:
      "filter (\<lambda>e. prefix (entry_value e) url) es = pre @ e # post"
      "list_all (\<lambda>x. length (entry_value x) < length (entry_value e)) pre"
      "list_all (\<lambda>x. length (entry_value x) \<le> length (entry_value e)) post"
      "0 < length (entry_value e)"
      "insteadof_loop url pl sl es 0 None =
        (length (entry_value e),
         Some (take (length (entry_name e) - (pl + sl)) (drop pl (entry_name e))))"
      by blast
    define R where "R = take (length (entry_name e) - (pl + sl)) (drop pl (entry_name e))"
    have "e \<in> set (filter (\<lambda>e. prefix (entry_value e) url) es)" using h(1) by simp
    then have "glob_matches ''url'' sfx (entry_name e)" by (simp add: es_def PREFIX_def)
    from glob_replacement_url [OF this]
    have name: "entry_name e = ''url.'' @ R @ ''.'' @ insteadof_suffix direction"
      by (simp add: R_def pl_def sl_def sfx)
    have res: "apply_insteadof config url direction = Some (R @ drop (length (entry_value e)) url)"
      using h(4) h(5) by (simp add: run R_def)
    have nonempty: "\<not> (\<forall>e \<in> set (insteadof_candidates config url direction). entry_value e = [])"
      using h(1) h(4) by (auto simp: cands)
    have "\<exists>pre e post replacement.
         insteadof_candidates config url direction = pre @ e # post \<and>
         (\<forall>x \<in> set pre. length (entry_value x) < length (entry_value e)) \<and>
         (\<forall>x \<in> set post. length (entry_value x) \<le> length (entry_value e)) \<and>
         entry_name e = ''url.'' @ replacement @ ''.'' @ insteadof_suffix direction \<and>
         apply_insteadof config url direction =
           Some (replacement @ drop (length (entry_value e)) url)"
      using h(1) h(2) h(3) name res
      by (intro exI [of _ pre] exI [of _ e] exI [of _ post] exI [of _ R])
        (simp add: cands list_all_iff)
    then show ?thesis using nonempty by blast
  qed
qed

theorem apply_insteadof_longest_first_witness:
  "(\<exists>e \<in> set (insteadof_candidates
       [\<lparr>entry_name = ''url.git@github.com:.insteadof'', entry_value = ''https://github.com/''\<rparr>,
        \<lparr>entry_name = ''url.FOO.insteadof'', entry_value = ''https://github.com/acme/''\<rparr>]
       ''https://github.com/acme/widget.git'' GIT_DIRECTION_FETCH). entry_value e \<noteq> []) \<and>
   apply_insteadof
     [\<lparr>entry_name = ''url.git@github.com:.insteadof'', entry_value = ''https://github.com/''\<rparr>,
      \<lparr>entry_name = ''url.FOO.insteadof'', entry_value = ''https://github.com/acme/''\<rparr>]
     ''https://github.com/acme/widget.git'' GIT_DIRECTION_FETCH = Some ''FOOwidget.git'' \<and>
   apply_insteadof
     [\<lparr>entry_name = ''url.git@github.com:.pushinsteadof'', entry_value = []\<rparr>,
      \<lparr>entry_name = ''url.FOO.insteadof'', entry_value = ''https://github.com/acme/''\<rparr>]
     ''https://github.com/acme/widget.git'' GIT_DIRECTION_PUSH
     = Some ''https://github.com/acme/widget.git''"
  using apply_insteadof_longest_first
    [of "[\<lparr>entry_name = ''url.git@github.com:.insteadof'', entry_value = ''https://github.com/''\<rparr>,
          \<lparr>entry_name = ''url.FOO.insteadof'', entry_value = ''https://github.com/acme/''\<rparr>]"
        "''https://github.com/acme/widget.git''" GIT_DIRECTION_FETCH]
    apply_insteadof_longest_first
    [of "[\<lparr>entry_name = ''url.git@github.com:.pushinsteadof'', entry_value = []\<rparr>,
          \<lparr>entry_name = ''url.FOO.insteadof'', entry_value = ''https://github.com/acme/''\<rparr>]"
        "''https://github.com/acme/widget.git''" GIT_DIRECTION_PUSH]
  by (simp add: apply_insteadof_def git_config_iterator_glob_new_def glob_matches_def
      insteadof_candidates_def insteadof_suffix_def
      PREFIX_def SUFFIX_FETCH_def SUFFIX_PUSH_def git__prefixcmp_def Let_def suffix_to_prefix)

text \<open>
  C2 as stated fails on a tie. Two entries carry the same value, which is a prefix of the
  URL; the loop only replaces its choice by a strictly longer value, so the entry met first
  (\<^verbatim>\<open>A\<close>) is used, not the one met last (\<^verbatim>\<open>B\<close>).
\<close>

theorem apply_insteadof_tie_counterexample:
  "apply_insteadof
     [\<lparr>entry_name = ''url.A.insteadof'', entry_value = ''http://x/''\<rparr>,
      \<lparr>entry_name = ''url.B.insteadof'', entry_value = ''http://x/''\<rparr>]
     ''http://x/y'' GIT_DIRECTION_FETCH = Some ''Ay'' \<and>
   apply_insteadof
     [\<lparr>entry_name = ''url.A.insteadof'', entry_value = ''http://x/''\<rparr>,
      \<lparr>entry_name = ''url.B.insteadof'', entry_value = ''http://x/''\<rparr>]
     ''http://x/y'' GIT_DIRECTION_FETCH \<noteq> Some ''By''"
  by (simp add: apply_insteadof_def git_config_iterator_glob_new_def glob_matches_def
      PREFIX_def SUFFIX_FETCH_def git__prefixcmp_def Let_def suffix_to_prefix)

subsection \<open>C4: the update_tips callback\<close>

lemma resolve_reference_numeral:
  "resolve_reference (numeral k) refs refname =
     (case map_of refs refname of
        None \<Rightarrow> Inl GIT_ENOTFOUND
      | Some (Direct oid) \<Rightarrow> Inr oid
      | Some (Symbolic target) \<Rightarrow> resolve_reference (pred_numeral k) refs target)"
  by (simp add: numeral_eq_Suc)

lemmas spec_api_eval =
  spec_api_def spec_parse_def pattern_matches_def pattern_transform_def is_wildcard_def
  wellformed_name_def spec_dwim_one_def Let_def

lemmas update_tips_eval =
  update_tips_for_spec_def update_tips_head_def update_tips_tag_rule_def update_tips_store_def
  update_tips_create_def git_repository_odb__weakptr_def git_odb_exists_def
  git_reference_name_to_id_def git_reference_create_def call_update_tips_def
  MAX_NESTING_LEVEL_def GIT_REFSPEC_TAGS_def zero_id_def resolve_reference_numeral

lemma update_tips_create_events:
  assumes "update_tips cbs = Some f"
    and "old = (case git_reference_name_to_id repo refname of Inl error \<Rightarrow> zero_id | Inr i \<Rightarrow> i)"
  shows "\<exists>evs. repo_trace (fst (step_state (update_tips_create (Some cbs) autotag head refname old (repo, uh)))) =
           repo_trace repo @ evs \<and>
         tips_step_events f (repo_refs repo) evs
           (repo_refs (fst (step_state (update_tips_create (Some cbs) autotag head refname old (repo, uh)))))
           (is_on_error (update_tips_create (Some cbs) autotag head refname old (repo, uh)))"
proof (cases "old = head_oid head")
  case True
  then show ?thesis by (simp add: update_tips_create_def tips_step_events_def)
next
  case False
  show ?thesis
  proof (cases "\<not> \<not> autotag \<and> map_of (repo_refs repo) refname \<noteq> None")
    case True
    then show ?thesis using False
      by (auto simp: update_tips_create_def tips_step_events_def git_reference_create_def
          GIT_EEXISTS_def)
  next
    case nex: False
    then have cr: "git_reference_create repo refname (head_oid head) (\<not> autotag) =
      (0, repo\<lparr>repo_refs := store_reference (repo_refs repo) refname (Direct (head_oid head)),
              repo_trace := repo_trace repo @ [Reference_create refname (head_oid head) (\<not> autotag) 0]\<rparr>)"
      by (auto simp: git_reference_create_def)
    show ?thesis using False assms
      by (simp add: update_tips_create_def cr GIT_EEXISTS_def call_update_tips_def
          tips_step_events_def git_reference_name_to_id_def)
  qed
qed

lemma update_tips_store_events:
  assumes "update_tips cbs = Some f"
  shows "\<exists>evs. repo_trace (fst (step_state (update_tips_store (Some cbs) autotag odb head refname (repo, uh)))) =
           repo_trace repo @ evs \<and>
         tips_step_events f (repo_refs repo) evs
           (repo_refs (fst (step_state (update_tips_store (Some cbs) autotag odb head refname (repo, uh)))))
           (is_on_error (update_tips_store (Some cbs) autotag odb head refname (repo, uh)))"
proof -
  have nothing [simp]: "\<And>b. tips_step_events f (repo_refs repo) [] (repo_refs repo) b"
    by (simp add: tips_step_events_def)
  show ?thesis
  proof (cases "git_reference_name_to_id repo refname")
    case (Inl error)
    show ?thesis
      using update_tips_create_events [OF assms, of zero_id repo refname autotag head] Inl
      by (simp add: update_tips_store_def Let_def)
  next
    case (Inr old)
    show ?thesis
      using update_tips_create_events [OF assms, of old repo refname autotag head] Inr
      by (simp add: update_tips_store_def Let_def)
  qed
qed

lemma update_tips_head_events:
  assumes "update_tips cbs = Some f"
  shows "\<exists>evs. repo_trace (fst (step_state (update_tips_head api (Some cbs) tagopt spec tagspec odb head (repo, uh)))) =
           repo_trace repo @ evs \<and>
         tips_step_events f (repo_refs repo) evs
           (repo_refs (fst (step_state (update_tips_head api (Some cbs) tagopt spec tagspec odb head (repo, uh)))))
           (is_on_error (update_tips_head api (Some cbs) tagopt spec tagspec odb head (repo, uh)))"
proof -
  have nothing [simp]: "\<And>b. tips_step_events f (repo_refs repo) [] (repo_refs repo) b"
    by (simp add: tips_step_events_def)
  obtain autotag refname where tr: "update_tips_tag_rule api tagopt tagspec head = (autotag, refname)"
    by (cases "update_tips_tag_rule api tagopt tagspec head")
  show ?thesis
    using update_tips_store_events [OF assms, of autotag odb head _ repo uh]
    by (auto simp: update_tips_head_def tr split: option.splits sum.splits)
qed

lemma tips_trace_ok_failed_create:
  assumes "e < 0" and "tips_trace_ok f refs evs"
  shows "tips_trace_ok f refs (Reference_create n new force e # evs)"
proof (cases evs)
  case Nil
  then show ?thesis using assms by simp
next
  case (Cons ev rest)
  then show ?thesis using assms by (cases ev) simp_all
qed

lemma tips_trace_ok_step:
  assumes "tips_step_events f refs evs1 refs1 aborted" and "tips_trace_ok f refs1 evs2"
  shows "tips_trace_ok f refs (evs1 @ evs2)"
  using assms
  by (auto simp: tips_step_events_def tips_trace_ok_failed_create)

lemma negative_tips_append: "negative_tips (xs @ ys) = negative_tips xs @ negative_tips ys"
  by (induction xs rule: negative_tips.induct) auto

lemma tips_step_events_negative:
  assumes "tips_step_events f refs evs refs' aborted"
  shows "negative_tips (butlast evs) = [] \<and> (\<not> aborted \<longrightarrow> negative_tips evs = [])"
  using assms by (auto simp: tips_step_events_def)

lemma update_tips_loop_events:
  assumes "update_tips cbs = Some f"
  shows "\<exists>evs.
     repo_trace (fst (snd (update_tips_loop api (Some cbs) tagopt spec tagspec odb hs (repo, uh)))) =
       repo_trace repo @ evs \<and>
     tips_trace_ok f (repo_refs repo) evs \<and>
     negative_tips (butlast evs) = [] \<and>
     (fst (update_tips_loop api (Some cbs) tagopt spec tagspec odb hs (repo, uh)) \<longrightarrow>
        negative_tips evs = [])"
proof (induction hs arbitrary: repo uh)
  case Nil
  show ?case by simp
next
  case (Cons h hs)
  let ?step = "update_tips_head api (Some cbs) tagopt spec tagspec odb h (repo, uh)"
  obtain repo1 uh1 where st1: "step_state ?step = (repo1, uh1)"
    by (cases "step_state ?step")
  from update_tips_head_events [OF assms, of api tagopt spec tagspec odb h repo uh]
  obtain evs1 where e1: "repo_trace repo1 = repo_trace repo @ evs1"
    and s1: "tips_step_events f (repo_refs repo) evs1 (repo_refs repo1) (is_on_error ?step)"
    by (auto simp: st1)
  note neg1 = tips_step_events_negative [OF s1]
  show ?case
  proof (cases ?step)
    case (On_error st')
    then have "st' = (repo1, uh1)" using st1 by simp
    then have res: "update_tips_loop api (Some cbs) tagopt spec tagspec odb (h # hs) (repo, uh) =
        (False, repo1, uh1)"
      using On_error by simp
    have "tips_trace_ok f (repo_refs repo) (evs1 @ [])"
      by (rule tips_trace_ok_step [OF s1]) simp
    then show ?thesis unfolding res using e1 neg1 by simp
  next
    case (Continue st')
    then have st': "st' = (repo1, uh1)" using st1 by simp
    then have res: "update_tips_loop api (Some cbs) tagopt spec tagspec odb (h # hs) (repo, uh) =
        update_tips_loop api (Some cbs) tagopt spec tagspec odb hs (repo1, uh1)"
      using Continue by simp
    from Cons.IH [of repo1 uh1] obtain evs2 where
      e2: "repo_trace (fst (snd (update_tips_loop api (Some cbs) tagopt spec tagspec odb hs (repo1, uh1)))) =
        repo_trace repo1 @ evs2"
      and ok2: "tips_trace_ok f (repo_refs repo1) evs2"
      and neg2: "negative_tips (butlast evs2) = []"
      and fin2: "fst (update_tips_loop api (Some cbs) tagopt spec tagspec odb hs (repo1, uh1)) \<longrightarrow>
        negative_tips evs2 = []"
      by blast
    have n1: "negative_tips evs1 = []" using neg1 Continue by simp
    have "negative_tips (butlast (evs1 @ evs2)) = []"
      using n1 neg1 neg2 by (cases "evs2 = []") (simp_all add: butlast_append negative_tips_append)
    moreover have "tips_trace_ok f (repo_refs repo) (evs1 @ evs2)"
      by (rule tips_trace_ok_step [OF s1 ok2])
    moreover have "repo_trace (fst (snd (update_tips_loop api (Some cbs) tagopt spec tagspec odb (h # hs) (repo, uh)))) =
        repo_trace repo @ (evs1 @ evs2)"
      unfolding res by (simp add: e2 e1)
    moreover have "fst (update_tips_loop api (Some cbs) tagopt spec tagspec odb (h # hs) (repo, uh)) \<longrightarrow>
        negative_tips (evs1 @ evs2) = []"
      unfolding res using fin2 n1 by (simp add: negative_tips_append)
    ultimately show ?thesis by blast
  qed
qed

lemma negative_tips_last:
  assumes "negative_tips (butlast evs) = []" and "evs = pre @ Update_tips n old new r # post" and "r < 0"
  shows "post = []"
proof (rule ccontr)
  assume "post \<noteq> []"
  then have "butlast evs = pre @ Update_tips n old new r # butlast post"
    using assms(2) by (simp add: butlast_append)
  then show False using assms(1,3) by (simp add: negative_tips_append)
qed

lemma same_step_simps [simp]:
  "same_step (Continue (r1, u1)) (Continue (r2, u2)) \<longleftrightarrow> same_effect r1 r2 \<and> u1 = u2"
  "same_step (On_error (r1, u1)) (On_error (r2, u2)) \<longleftrightarrow> same_effect r1 r2 \<and> u1 = u2"
  "same_step (Continue (r1, u1)) (On_error (r2, u2)) \<longleftrightarrow> False"
  "same_step (On_error (r1, u1)) (Continue (r2, u2)) \<longleftrightarrow> False"
  by (simp_all add: same_step_def)

lemma update_tips_create_same:
  assumes "update_tips cbs1 = Some f" and "update_tips cbs2 = Some g"
    and "\<And>n old new. f n old new < 0 \<longleftrightarrow> g n old new < 0"
    and "same_effect r1 r2"
  shows "same_step (update_tips_create (Some cbs1) autotag head refname old (r1, uh))
     (update_tips_create (Some cbs2) autotag head refname old (r2, uh))"
  using assms
  by (auto simp: update_tips_create_def git_reference_create_def call_update_tips_def
      same_effect_def GIT_EEXISTS_def)

lemma name_to_id_same:
  "same_effect r1 r2 \<Longrightarrow> git_reference_name_to_id r1 n = git_reference_name_to_id r2 n"
  by (simp add: git_reference_name_to_id_def same_effect_def)

lemma update_tips_store_same:
  assumes "update_tips cbs1 = Some f" and "update_tips cbs2 = Some g"
    and "\<And>n old new. f n old new < 0 \<longleftrightarrow> g n old new < 0"
    and "same_effect r1 r2"
  shows "same_step (update_tips_store (Some cbs1) autotag odb head refname (r1, uh))
     (update_tips_store (Some cbs2) autotag odb head refname (r2, uh))"
  using update_tips_create_same [OF assms] assms(4)
  by (simp add: update_tips_store_def Let_def name_to_id_same [OF assms(4)] split: sum.splits)

lemma update_tips_head_same:
  assumes "update_tips cbs1 = Some f" and "update_tips cbs2 = Some g"
    and "\<And>n old new. f n old new < 0 \<longleftrightarrow> g n old new < 0"
    and "same_effect r1 r2"
  shows "same_step (update_tips_head api (Some cbs1) tagopt spec tagspec odb head (r1, uh))
     (update_tips_head api (Some cbs2) tagopt spec tagspec odb head (r2, uh))"
  using update_tips_store_same [OF assms] assms(4)
  by (simp add: update_tips_head_def split: prod.splits option.splits sum.splits)

lemma update_tips_loop_same:
  assumes "update_tips cbs1 = Some f" and "update_tips cbs2 = Some g"
    and "\<And>n old new. f n old new < 0 \<longleftrightarrow> g n old new < 0"
  shows "same_effect r1 r2 \<Longrightarrow>
     fst (update_tips_loop api (Some cbs1) tagopt spec tagspec odb hs (r1, uh)) =
       fst (update_tips_loop api (Some cbs2) tagopt spec tagspec odb hs (r2, uh)) \<and>
     same_effect (fst (snd (update_tips_loop api (Some cbs1) tagopt spec tagspec odb hs (r1, uh))))
       (fst (snd (update_tips_loop api (Some cbs2) tagopt spec tagspec odb hs (r2, uh)))) \<and>
     snd (snd (update_tips_loop api (Some cbs1) tagopt spec tagspec odb hs (r1, uh))) =
       snd (snd (update_tips_loop api (Some cbs2) tagopt spec tagspec odb hs (r2, uh)))"
proof (induction hs arbitrary: r1 r2 uh)
  case Nil
  then show ?case by simp
next
  case (Cons h hs)
  let ?s1 = "update_tips_head api (Some cbs1) tagopt spec tagspec odb h (r1, uh)"
  let ?s2 = "update_tips_head api (Some cbs2) tagopt spec tagspec odb h (r2, uh)"
  have ss: "same_step ?s1 ?s2"
    by (rule update_tips_head_same [OF assms Cons.prems])
  show ?case
  proof (cases ?s1)
    case (On_error st1)
    then obtain st2 where s2: "?s2 = On_error st2"
      using ss by (cases ?s2) (auto simp: same_step_def)
    show ?thesis using ss by (simp add: On_error s2 same_step_def)
  next
    case (Continue st1)
    then obtain st2 where s2: "?s2 = Continue st2"
      using ss by (cases ?s2) (auto simp: same_step_def)
    obtain a1 u1 where st1: "st1 = (a1, u1)" by (cases st1)
    obtain a2 u2 where st2: "st2 = (a2, u2)" by (cases st2)
    have "same_effect a1 a2" and "u1 = u2"
      using ss by (simp_all add: Continue s2 st1 st2)
    then show ?thesis using Cons.IH [of a1 a2 u1] by (simp add: Continue s2 st1 st2)
  qed
qed

lemma update_tips_for_spec_same:
  assumes "update_tips cbs1 = Some f" and "update_tips cbs2 = Some g"
    and "\<And>n old new. f n old new < 0 \<longleftrightarrow> g n old new < 0"
  shows "fst (update_tips_for_spec api (Some cbs1) ufh tagopt spec refs repo) =
       fst (update_tips_for_spec api (Some cbs2) ufh tagopt spec refs repo) \<and>
     same_effect (snd (update_tips_for_spec api (Some cbs1) ufh tagopt spec refs repo))
       (snd (update_tips_for_spec api (Some cbs2) ufh tagopt spec refs repo))"
proof (cases "git_repository_odb__weakptr repo")
  case (Inl error)
  then show ?thesis by (simp add: update_tips_for_spec_def same_effect_def)
next
  case (Inr odb)
  show ?thesis
  proof (cases "git_refspec__parse api GIT_REFSPEC_TAGS True")
    case None
    then show ?thesis using Inr by (simp add: update_tips_for_spec_def same_effect_def)
  next
    case (Some tagspec)
    have start: "same_effect repo repo" by (simp add: same_effect_def)
    obtain ok1 a1 u1 where l1:
      "update_tips_loop api (Some cbs1) tagopt spec tagspec odb refs (repo, []) = (ok1, a1, u1)"
      by (cases "update_tips_loop api (Some cbs1) tagopt spec tagspec odb refs (repo, [])")
    obtain ok2 a2 u2 where l2:
      "update_tips_loop api (Some cbs2) tagopt spec tagspec odb refs (repo, []) = (ok2, a2, u2)"
      by (cases "update_tips_loop api (Some cbs2) tagopt spec tagspec odb refs (repo, [])")
    from update_tips_loop_same [OF assms start, of api tagopt spec tagspec odb refs "[]"]
    have "ok1 = ok2" "same_effect a1 a2" "u1 = u2" by (simp_all add: l1 l2)
    then show ?thesis
      using Inr Some by (cases ok2) (simp_all add: update_tips_for_spec_def l1 l2)
  qed
qed

text \<open>
  C4 (amended). In a run of \<^verbatim>\<open>update_tips_for_spec\<close> with an \<^verbatim>\<open>update_tips\<close> callback,
  every reference that is created or updated is followed at once by a call of the callback
  with the reference's name, its old id (the all-zero id when it did not exist) and the
  new id. A call that returns a negative code aborts the operation: it is the last event
  of the run, no further head is processed, and the function returns \<open>-1\<close>. A code that
  is not negative is ignored: with a callback that never returns a negative code the run
  returns the same code, and leaves the same references and the same events in the same
  order, as with the callback that always returns \<open>0\<close>.
\<close>

theorem update_tips_callback_after_each_update:
  assumes "update_tips cbs = Some f"
    and "update_tips_for_spec api (Some cbs) update_fetchhead tagopt spec refs repo = (ret, repo')"
  shows "tips_trace_ok f (repo_refs repo) (new_events repo repo') \<and>
    (\<forall>pre n old new r post.
       new_events repo repo' = pre @ Update_tips n old new r # post \<and> r < 0 \<longrightarrow>
       post = [] \<and> ret = - 1) \<and>
    ((\<forall>n old new. 0 \<le> f n old new) \<longrightarrow>
       fst (update_tips_for_spec api (Some (cbs\<lparr>update_tips := Some (\<lambda>n old new. 0)\<rparr>))
              update_fetchhead tagopt spec refs repo) = ret \<and>
       same_effect repo'
         (snd (update_tips_for_spec api (Some (cbs\<lparr>update_tips := Some (\<lambda>n old new. 0)\<rparr>))
                 update_fetchhead tagopt spec refs repo)))"
proof -
  have ignored: "(\<forall>n old new. 0 \<le> f n old new) \<longrightarrow>
       fst (update_tips_for_spec api (Some (cbs\<lparr>update_tips := Some (\<lambda>n old new. 0)\<rparr>))
              update_fetchhead tagopt spec refs repo) = ret \<and>
       same_effect repo'
         (snd (update_tips_for_spec api (Some (cbs\<lparr>update_tips := Some (\<lambda>n old new. 0)\<rparr>))
                 update_fetchhead tagopt spec refs repo))"
  proof
    assume nonneg: "\<forall>n old new. 0 \<le> f n old new"
    have zero: "update_tips (cbs\<lparr>update_tips := Some (\<lambda>n old new. 0)\<rparr>) = Some (\<lambda>n old new. 0)"
      by simp
    have sign: "\<And>n old new. f n old new < 0 \<longleftrightarrow> (0 :: int) < 0"
      using nonneg by (simp add: not_less)
    from update_tips_for_spec_same [OF assms(1) zero sign,
        of api update_fetchhead tagopt spec refs repo]
    show "fst (update_tips_for_spec api (Some (cbs\<lparr>update_tips := Some (\<lambda>n old new. 0)\<rparr>))
              update_fetchhead tagopt spec refs repo) = ret \<and>
       same_effect repo'
         (snd (update_tips_for_spec api (Some (cbs\<lparr>update_tips := Some (\<lambda>n old new. 0)\<rparr>))
                 update_fetchhead tagopt spec refs repo))"
      by (simp add: assms(2))
  qed
  have main: "tips_trace_ok f (repo_refs repo) (new_events repo repo') \<and>
    (\<forall>pre n old new r post.
       new_events repo repo' = pre @ Update_tips n old new r # post \<and> r < 0 \<longrightarrow>
       post = [] \<and> ret = - 1)"
  proof (cases "git_repository_odb__weakptr repo")
  case (Inl error)
  then have "repo' = repo" using assms(2) by (simp add: update_tips_for_spec_def)
  then show ?thesis by (simp add: new_events_def)
next
  case (Inr odb)
  show ?thesis
  proof (cases "git_refspec__parse api GIT_REFSPEC_TAGS True")
    case None
    then have "repo' = repo" using assms(2) Inr by (simp add: update_tips_for_spec_def)
    then show ?thesis by (simp add: new_events_def)
  next
    case (Some tagspec)
    let ?loop = "update_tips_loop api (Some cbs) tagopt spec tagspec odb refs (repo, [])"
    from update_tips_loop_events [OF assms(1), of api tagopt spec tagspec odb refs repo "[]"]
    obtain evs where tr: "repo_trace (fst (snd ?loop)) = repo_trace repo @ evs"
      and ok: "tips_trace_ok f (repo_refs repo) evs"
      and neg: "negative_tips (butlast evs) = []"
      and fin: "fst ?loop \<longrightarrow> negative_tips evs = []"
      by blast
    obtain okflag repo1 uh1 where loop: "?loop = (okflag, repo1, uh1)"
      by (cases ?loop)
    have r': "repo' = repo1" and ret: "\<not> okflag \<longrightarrow> ret = - 1"
      using assms(2) Inr Some loop
      by (auto simp: update_tips_for_spec_def split: if_splits bool.splits)
    have ne: "new_events repo repo' = evs"
      using tr loop r' by (simp add: new_events_def)
    have "\<forall>pre n old new r post.
       evs = pre @ Update_tips n old new r # post \<and> r < 0 \<longrightarrow> post = [] \<and> ret = - 1"
    proof (intro allI impI)
      fix pre n old new r post
      assume a: "evs = pre @ Update_tips n old new r # post \<and> r < 0"
      then have "post = []" using negative_tips_last [OF neg] by blast
      moreover have "negative_tips evs \<noteq> []" using a by (auto simp: negative_tips_append)
      then have "\<not> okflag" using fin loop by auto
      ultimately show "post = [] \<and> ret = - 1" using ret by simp
    qed
    then show ?thesis using ok ne by simp
  qed
qed
  from main ignored show ?thesis by blast
qed

theorem update_tips_callback_after_each_update_witness:
  "update_tips_for_spec spec_api
     (Some \<lparr>cb_version = 1,
            update_tips = Some (\<lambda>refname old new.
              if refname = ''refs/remotes/origin/main'' then - 1 else 0)\<rparr>)
     False GIT_REMOTE_DOWNLOAD_TAGS_AUTO origin_heads_spec two_branches empty_repository
   = (- 1, empty_repository
        \<lparr>repo_refs := [(''refs/remotes/origin/main'', Direct 11)],
         repo_trace :=
           [Reference_create ''refs/remotes/origin/main'' 11 True 0,
            Update_tips ''refs/remotes/origin/main'' 0 11 (- 1)]\<rparr>) \<and>
   tips_trace_ok (\<lambda>refname old new. if refname = ''refs/remotes/origin/main'' then - 1 else 0) []
     [Reference_create ''refs/remotes/origin/main'' 11 True 0,
      Update_tips ''refs/remotes/origin/main'' 0 11 (- 1)]"
proof -
  let ?f = "\<lambda>refname (old :: git_oid) (new :: git_oid).
    if refname = ''refs/remotes/origin/main'' then - 1 else (0 :: int)"
  let ?cbs = "\<lparr>cb_version = 1, update_tips = Some ?f\<rparr>"
  let ?repo' = "empty_repository
        \<lparr>repo_refs := [(''refs/remotes/origin/main'', Direct 11)],
         repo_trace :=
           [Reference_create ''refs/remotes/origin/main'' 11 True 0,
            Update_tips ''refs/remotes/origin/main'' 0 11 (- 1)]\<rparr>"
  have hook: "update_tips ?cbs = Some ?f" by simp
  have run: "update_tips_for_spec spec_api (Some ?cbs) False GIT_REMOTE_DOWNLOAD_TAGS_AUTO
      origin_heads_spec two_branches empty_repository = (- 1, ?repo')"
    by (simp add: update_tips_eval spec_api_eval origin_heads_spec_def two_branches_def
        empty_repository_def git_codes)
  have ev: "new_events empty_repository ?repo' =
      [Reference_create ''refs/remotes/origin/main'' 11 True 0,
       Update_tips ''refs/remotes/origin/main'' 0 11 (- 1)]"
    by (simp add: new_events_def empty_repository_def)
  have refs: "repo_refs empty_repository = []" by (simp add: empty_repository_def)
  from update_tips_callback_after_each_update [OF hook run] run show ?thesis
    by (simp only: ev refs)
qed

text \<open>
  C4 as stated fails for a positive return value: the callback returns 1 for every
  reference, and both heads are processed and the function returns 0.
\<close>

theorem update_tips_positive_return_counterexample:
  "update_tips_for_spec spec_api
     (Some \<lparr>cb_version = 1, update_tips = Some (\<lambda>refname old new. 1)\<rparr>)
     False GIT_REMOTE_DOWNLOAD_TAGS_AUTO origin_heads_spec two_branches empty_repository
   = (0, empty_repository
        \<lparr>repo_refs := [(''refs/remotes/origin/main'', Direct 11),
                       (''refs/remotes/origin/dev'', Direct 12)],
         repo_trace :=
           [Reference_create ''refs/remotes/origin/main'' 11 True 0,
            Update_tips ''refs/remotes/origin/main'' 0 11 1,
            Reference_create ''refs/remotes/origin/dev'' 12 True 0,
            Update_tips ''refs/remotes/origin/dev'' 0 12 1]\<rparr>)"
  by (simp add: update_tips_eval spec_api_eval origin_heads_spec_def two_branches_def
      empty_repository_def git_codes)

subsection \<open>C5: tags in update_tips\<close>

lemma map_of_store_reference:
  "map_of (store_reference refs n r) = (map_of refs)(n \<mapsto> r)"
  by (induction refs n r rule: store_reference.induct) auto

lemma tag_step_shape_same [simp]:
  "tag_step_shape autotag head refname repo (Continue (repo, uh))"
  "tag_step_shape autotag head refname repo (On_error (repo, uh))"
  by (simp_all add: tag_step_shape_def new_events_def)

lemma update_tips_create_shape:
  "tag_step_shape autotag head refname repo
     (update_tips_create callbacks autotag head refname old (repo, uh))"
proof (cases "old = head_oid head")
  case True
  then show ?thesis by (simp add: update_tips_create_def)
next
  case False
  show ?thesis
  proof (cases "autotag \<and> map_of (repo_refs repo) refname \<noteq> None")
    case True
    then show ?thesis using False
      by (auto simp: update_tips_create_def tag_step_shape_def git_reference_create_def
          new_events_def GIT_EEXISTS_def)
  next
    case nex: False
    then have cr: "git_reference_create repo refname (head_oid head) (\<not> autotag) =
      (0, repo\<lparr>repo_refs := store_reference (repo_refs repo) refname (Direct (head_oid head)),
              repo_trace := repo_trace repo @ [Reference_create refname (head_oid head) (\<not> autotag) 0]\<rparr>)"
      by (auto simp: git_reference_create_def)
    show ?thesis using False nex
      by (auto simp: update_tips_create_def cr GIT_EEXISTS_def call_update_tips_def
          tag_step_shape_def new_events_def split: option.splits)
  qed
qed

lemma update_tips_store_shape:
  "tag_step_shape autotag head refname repo
     (update_tips_store callbacks autotag odb head refname (repo, uh))"
  using update_tips_create_shape [of autotag head refname repo callbacks]
  by (auto simp: update_tips_store_def Let_def split: sum.splits)

lemma update_tips_store_absent_object:
  "autotag \<Longrightarrow> \<not> git_odb_exists odb (head_oid head) \<Longrightarrow>
   update_tips_store callbacks autotag odb head refname (repo, uh) = Continue (repo, uh)"
  by (simp add: update_tips_store_def)

lemma update_tips_create_trace:
  "\<exists>evs. repo_trace (fst (step_state (update_tips_create callbacks autotag head refname old (repo, uh)))) =
     repo_trace repo @ evs"
  by (auto simp: update_tips_create_def git_reference_create_def call_update_tips_def
      split: option.splits)

lemma update_tips_store_trace:
  "\<exists>evs. repo_trace (fst (step_state (update_tips_store callbacks autotag odb head refname (repo, uh)))) =
     repo_trace repo @ evs"
  using update_tips_create_trace [of callbacks autotag head refname _ repo]
  by (auto simp: update_tips_store_def Let_def split: sum.splits)

lemma update_tips_head_trace:
  "\<exists>evs. repo_trace (fst (step_state (update_tips_head api callbacks tagopt spec tagspec odb head (repo, uh)))) =
     repo_trace repo @ evs"
  using update_tips_store_trace [of callbacks _ odb head _ repo uh]
  by (auto simp: update_tips_head_def split: prod.splits option.splits sum.splits)

lemma update_tips_loop_trace:
  "\<exists>evs. repo_trace (fst (snd (update_tips_loop api callbacks tagopt spec tagspec odb hs (repo, uh)))) =
     repo_trace repo @ evs"
proof (induction hs arbitrary: repo uh)
  case Nil
  then show ?case by simp
next
  case (Cons h hs)
  let ?s = "update_tips_head api callbacks tagopt spec tagspec odb h (repo, uh)"
  obtain r1 u1 where st: "step_state ?s = (r1, u1)" by (cases "step_state ?s")
  from update_tips_head_trace [of api callbacks tagopt spec tagspec odb h repo uh]
  obtain e1 where e1: "repo_trace r1 = repo_trace repo @ e1" using st by auto
  show ?case
  proof (cases ?s)
    case (On_error st')
    then show ?thesis using st e1 by simp
  next
    case (Continue st')
    from Cons.IH [of r1 u1] obtain e2 where
      "repo_trace (fst (snd (update_tips_loop api callbacks tagopt spec tagspec odb hs (r1, u1)))) =
         repo_trace r1 @ e2" by blast
    then show ?thesis using Continue st e1 by simp
  qed
qed

lemma update_tips_loop_append:
  "update_tips_loop api callbacks tagopt spec tagspec odb (pre @ rest) st =
     (case update_tips_loop api callbacks tagopt spec tagspec odb pre st of
        (False, st') \<Rightarrow> (False, st')
      | (True, st') \<Rightarrow> update_tips_loop api callbacks tagopt spec tagspec odb rest st')"
  by (induction pre arbitrary: st) (simp_all split: loop_step.splits)

lemma update_tips_for_spec_state:
  assumes "git_repository_odb__weakptr repo = Inr odb"
    and "git_refspec__parse api GIT_REFSPEC_TAGS True = Some tagspec"
  shows "snd (update_tips_for_spec api callbacks ufh tagopt spec refs repo) =
       fst (snd (update_tips_loop api callbacks tagopt spec tagspec odb refs (repo, []))) \<and>
     (\<not> fst (update_tips_loop api callbacks tagopt spec tagspec odb refs (repo, [])) \<longrightarrow>
        fst (update_tips_for_spec api callbacks ufh tagopt spec refs repo) = - 1)"
  using assms
  by (cases "update_tips_loop api callbacks tagopt spec tagspec odb refs (repo, [])")
    (auto simp: update_tips_for_spec_def split: bool.splits)

lemma update_tips_store_creates:
  assumes "refname \<noteq> []"
    and "autotag \<longrightarrow> git_odb_exists odb (head_oid head)"
    and "case git_reference_name_to_id repo refname of
           Inl error \<Rightarrow> error = GIT_ENOTFOUND \<and> head_oid head \<noteq> zero_id
         | Inr old \<Rightarrow> old \<noteq> head_oid head"
  shows "\<exists>e tail.
     new_events repo (fst (step_state (update_tips_store callbacks autotag odb head refname (repo, uh)))) =
       Reference_create refname (head_oid head) (\<not> autotag) e # tail"
  using assms
  by (auto simp: update_tips_store_def update_tips_create_def git_reference_create_def
      call_update_tips_def new_events_def Let_def split: sum.splits option.splits)

lemma update_tips_head_tag_store:
  assumes "git_reference_is_valid_name api (head_name head)"
    and "git_refspec_src_matches api tagspec (head_name head)"
    and "tagopt \<noteq> GIT_REMOTE_DOWNLOAD_TAGS_NONE"
    and "step = update_tips_head api callbacks tagopt spec tagspec odb head (repo, uh)"
  shows "(if tagopt \<noteq> GIT_REMOTE_DOWNLOAD_TAGS_AUTO \<and>
            git_refspec_src_matches api spec (head_name head)
          then (case spec_dst spec of
                  None \<Rightarrow> step = Continue (repo, uh @ [head])
                | Some dst \<Rightarrow>
                    (case git_refspec_transform api spec (head_name head) of
                       Inl error \<Rightarrow> step = On_error (repo, uh)
                     | Inr refname \<Rightarrow>
                         step = update_tips_store callbacks False odb head refname (repo, uh)))
          else step = update_tips_store callbacks (tagopt = GIT_REMOTE_DOWNLOAD_TAGS_AUTO) odb head
                 (head_name head) (repo, uh))"
  using assms
  by (auto simp: update_tips_head_def update_tips_tag_rule_def split: option.splits sum.splits)

text \<open>
  C5 (amended). In a run of \<^verbatim>\<open>update_tips_for_spec\<close> that has the object database and the
  built-in tag spec \<^verbatim>\<open>refs/tags/*:refs/tags/*\<close>, take an advertised head that the loop
  reaches (no head before it left for the error exit), with a valid name that matches the
  built-in tag spec, under a tag policy other than NONE. The events of the pass for this
  head are part of the events of the run, right after those of the heads before it, and a
  pass that leaves for the error exit ends the run with \<open>-1\<close>. Every reference created in
  the pass points to the head's id and is created with force equal to the negation of the
  auto-tag flag, which is set exactly under the AUTO policy. Its name is the head's name
  verbatim under the AUTO policy, and under the other policies when the refspec being
  processed does not itself match the head; when it does, the name is that refspec's
  transform of the head's name, and nothing is created when that refspec has no
  destination. Under AUTO nothing is created when the object is not in the local object
  database, and no existing reference is changed. An already-exists result of the creation
  is tolerated: the loop goes on and no reference is changed. The creation under that name
  does take place, first in the pass, when the name is not empty, the object is in the local
  object database if the policy is AUTO, and the name resolves to another id than the
  head's, or does not exist while the head's id is not all-zero.
\<close>

theorem update_tips_tag_policy:
  assumes run: "update_tips_for_spec api callbacks update_fetchhead tagopt spec refs repo = (ret, final)"
    and odb: "git_repository_odb__weakptr repo = Inr odb"
    and parse: "git_refspec__parse api GIT_REFSPEC_TAGS True = Some tagspec"
    and refs: "refs = pre @ head # post"
    and before: "update_tips_loop api callbacks tagopt spec tagspec odb pre (repo, []) = (True, repo1, heads1)"
    and valid: "git_reference_is_valid_name api (head_name head)"
    and tag: "git_refspec_src_matches api tagspec (head_name head)"
    and policy: "tagopt \<noteq> GIT_REMOTE_DOWNLOAD_TAGS_NONE"
    and step: "step = update_tips_head api callbacks tagopt spec tagspec odb head (repo1, heads1)"
    and repo2: "repo2 = fst (step_state step)"
  shows
    "(\<exists>rest. new_events repo final = new_events repo repo1 @ new_events repo1 repo2 @ rest) \<and>
     (is_on_error step \<longrightarrow> ret = - 1 \<and> final = repo2) \<and>
     (\<forall>n new force e.
        Reference_create n new force e \<in> set (new_events repo1 repo2) \<longrightarrow>
        new = head_oid head \<and>
        force = (tagopt \<noteq> GIT_REMOTE_DOWNLOAD_TAGS_AUTO) \<and>
        (if tagopt \<noteq> GIT_REMOTE_DOWNLOAD_TAGS_AUTO \<and>
            git_refspec_src_matches api spec (head_name head)
         then spec_dst spec \<noteq> None \<and> git_refspec_transform api spec (head_name head) = Inr n
         else n = head_name head)) \<and>
     (tagopt \<noteq> GIT_REMOTE_DOWNLOAD_TAGS_AUTO \<and>
      git_refspec_src_matches api spec (head_name head) \<and> spec_dst spec = None \<longrightarrow>
        repo2 = repo1 \<and> \<not> is_on_error step) \<and>
     (tagopt = GIT_REMOTE_DOWNLOAD_TAGS_AUTO \<and> \<not> git_odb_exists odb (head_oid head) \<longrightarrow>
        repo2 = repo1 \<and> \<not> is_on_error step) \<and>
     (tagopt = GIT_REMOTE_DOWNLOAD_TAGS_AUTO \<longrightarrow>
        (\<forall>n. map_of (repo_refs repo1) n \<noteq> None \<longrightarrow>
           map_of (repo_refs repo2) n = map_of (repo_refs repo1) n)) \<and>
     (\<forall>n new force.
        Reference_create n new force GIT_EEXISTS \<in> set (new_events repo1 repo2) \<longrightarrow>
        \<not> is_on_error step \<and> repo_refs repo2 = repo_refs repo1) \<and>
     (\<forall>dest.
        (if tagopt \<noteq> GIT_REMOTE_DOWNLOAD_TAGS_AUTO \<and>
            git_refspec_src_matches api spec (head_name head)
         then spec_dst spec \<noteq> None \<and> git_refspec_transform api spec (head_name head) = Inr dest
         else dest = head_name head) \<and>
        dest \<noteq> [] \<and>
        (tagopt = GIT_REMOTE_DOWNLOAD_TAGS_AUTO \<longrightarrow> git_odb_exists odb (head_oid head)) \<and>
        (case git_reference_name_to_id repo1 dest of
           Inl error \<Rightarrow> error = GIT_ENOTFOUND \<and> head_oid head \<noteq> zero_id
         | Inr old \<Rightarrow> old \<noteq> head_oid head) \<longrightarrow>
        (\<exists>e tail. new_events repo1 repo2 =
           Reference_create dest (head_oid head) (tagopt \<noteq> GIT_REMOTE_DOWNLOAD_TAGS_AUTO) e # tail))"
proof -
  let ?auto = "tagopt = GIT_REMOTE_DOWNLOAD_TAGS_AUTO"
  let ?own = "tagopt \<noteq> GIT_REMOTE_DOWNLOAD_TAGS_AUTO \<and> git_refspec_src_matches api spec (head_name head)"
  note store = update_tips_head_tag_store [OF valid tag policy step]
  obtain r2 u2 where st2: "step_state step = (r2, u2)" by (cases "step_state step")
  have r2: "r2 = repo2" using repo2 st2 by simp
  from update_tips_loop_trace [of api callbacks tagopt spec tagspec odb pre repo "[]"]
  obtain e1 where e1: "repo_trace repo1 = repo_trace repo @ e1" using before by auto
  from update_tips_head_trace [of api callbacks tagopt spec tagspec odb head repo1 heads1]
  obtain e2 where e2: "repo_trace repo2 = repo_trace repo1 @ e2" using step repo2 by auto
  have whole: "update_tips_loop api callbacks tagopt spec tagspec odb refs (repo, []) =
      (case step of
         On_error st' \<Rightarrow> (False, st')
       | Continue st' \<Rightarrow> update_tips_loop api callbacks tagopt spec tagspec odb post st')"
    unfolding refs update_tips_loop_append by (simp add: before step)
  note fs = update_tips_for_spec_state [OF odb parse, of callbacks update_fetchhead tagopt spec refs]
  have final: "final = fst (snd (update_tips_loop api callbacks tagopt spec tagspec odb refs (repo, [])))"
    using fs run by simp
  have a: "\<exists>rest. new_events repo final = new_events repo repo1 @ new_events repo1 repo2 @ rest"
  proof (cases step)
    case (On_error st')
    then have "final = repo2" using final whole st2 r2 by simp
    then show ?thesis by (simp add: new_events_def e1 e2)
  next
    case (Continue st')
    from update_tips_loop_trace [of api callbacks tagopt spec tagspec odb post r2 u2]
    obtain e3 where "repo_trace final = repo_trace repo2 @ e3"
      using final whole st2 r2 Continue by auto
    then show ?thesis by (simp add: new_events_def e1 e2)
  qed
  have b: "is_on_error step \<longrightarrow> ret = - 1 \<and> final = repo2"
  proof
    assume "is_on_error step"
    then obtain st' where oe: "step = On_error st'" by (cases step) simp_all
    then have "update_tips_loop api callbacks tagopt spec tagspec odb refs (repo, []) = (False, st')"
      using whole by simp
    then show "ret = - 1 \<and> final = repo2" using fs run oe repo2 by simp
  qed
  have shape: "\<exists>refname.
      tag_step_shape ?auto head refname repo1 step \<and>
      (if ?own then (new_events repo1 repo2 \<noteq> [] \<longrightarrow>
           spec_dst spec \<noteq> None \<and> git_refspec_transform api spec (head_name head) = Inr refname)
       else refname = head_name head)"
  proof (cases ?own)
    case False
    then have "step = update_tips_store callbacks ?auto odb head (head_name head) (repo1, heads1)"
      using store by simp
    then show ?thesis using False
      by (intro exI [of _ "head_name head"]) (auto simp: update_tips_store_shape)
  next
    case True
    show ?thesis
    proof (cases "spec_dst spec")
      case None
      then have "step = Continue (repo1, heads1 @ [head])" using store True by simp
      then show ?thesis using True repo2
        by (intro exI [of _ "[]"]) (auto simp: new_events_def)
    next
      case (Some dst)
      show ?thesis
      proof (cases "git_refspec_transform api spec (head_name head)")
        case (Inl error)
        then have "step = On_error (repo1, heads1)" using store True Some by simp
        then show ?thesis using True repo2
          by (intro exI [of _ "[]"]) (auto simp: new_events_def)
      next
        case (Inr refname)
        then have "step = update_tips_store callbacks False odb head refname (repo1, heads1)"
          using store True Some by simp
        then show ?thesis using True Some Inr
          by (intro exI [of _ refname]) (auto simp: update_tips_store_shape)
      qed
    qed
  qed
  then obtain refname where
    shape: "tag_step_shape ?auto head refname repo1 step"
    and name: "if ?own then (new_events repo1 repo2 \<noteq> [] \<longrightarrow>
           spec_dst spec \<noteq> None \<and> git_refspec_transform api spec (head_name head) = Inr refname)
       else refname = head_name head"
    by blast
  have c: "\<forall>n new force e.
        Reference_create n new force e \<in> set (new_events repo1 repo2) \<longrightarrow>
        new = head_oid head \<and>
        force = (tagopt \<noteq> GIT_REMOTE_DOWNLOAD_TAGS_AUTO) \<and>
        (if ?own
         then spec_dst spec \<noteq> None \<and> git_refspec_transform api spec (head_name head) = Inr n
         else n = head_name head)"
  proof (intro allI impI)
    fix n new force e
    assume ev: "Reference_create n new force e \<in> set (new_events repo1 repo2)"
    then have ne: "new_events repo1 repo2 \<noteq> []" by auto
    have "n = refname \<and> new = head_oid head \<and> force = (\<not> ?auto)"
      using shape ev repo2 by (auto simp: tag_step_shape_def Let_def list_all_iff)
    then show "new = head_oid head \<and>
        force = (tagopt \<noteq> GIT_REMOTE_DOWNLOAD_TAGS_AUTO) \<and>
        (if ?own
         then spec_dst spec \<noteq> None \<and> git_refspec_transform api spec (head_name head) = Inr n
         else n = head_name head)"
      using name ne by (simp split: if_splits)
  qed
  have d: "?own \<and> spec_dst spec = None \<longrightarrow> repo2 = repo1 \<and> \<not> is_on_error step"
    using store repo2 by auto
  have e: "?auto \<and> \<not> git_odb_exists odb (head_oid head) \<longrightarrow> repo2 = repo1 \<and> \<not> is_on_error step"
    using store repo2 by (auto simp: update_tips_store_absent_object)
  have f: "?auto \<longrightarrow>
        (\<forall>n. map_of (repo_refs repo1) n \<noteq> None \<longrightarrow>
           map_of (repo_refs repo2) n = map_of (repo_refs repo1) n)"
    using shape repo2
    by (auto simp: tag_step_shape_def Let_def map_of_store_reference)
  have g: "\<forall>n new force.
        Reference_create n new force GIT_EEXISTS \<in> set (new_events repo1 repo2) \<longrightarrow>
        \<not> is_on_error step \<and> repo_refs repo2 = repo_refs repo1"
    using shape repo2
    by (auto simp: tag_step_shape_def Let_def list_all_iff GIT_EEXISTS_def)
  have h: "\<forall>dest.
        (if ?own
         then spec_dst spec \<noteq> None \<and> git_refspec_transform api spec (head_name head) = Inr dest
         else dest = head_name head) \<and>
        dest \<noteq> [] \<and>
        (?auto \<longrightarrow> git_odb_exists odb (head_oid head)) \<and>
        (case git_reference_name_to_id repo1 dest of
           Inl error \<Rightarrow> error = GIT_ENOTFOUND \<and> head_oid head \<noteq> zero_id
         | Inr old \<Rightarrow> old \<noteq> head_oid head) \<longrightarrow>
        (\<exists>e tail. new_events repo1 repo2 =
           Reference_create dest (head_oid head) (tagopt \<noteq> GIT_REMOTE_DOWNLOAD_TAGS_AUTO) e # tail)"
  proof (intro allI impI)
    fix dest
    assume p: "(if ?own
         then spec_dst spec \<noteq> None \<and> git_refspec_transform api spec (head_name head) = Inr dest
         else dest = head_name head) \<and>
        dest \<noteq> [] \<and>
        (?auto \<longrightarrow> git_odb_exists odb (head_oid head)) \<and>
        (case git_reference_name_to_id repo1 dest of
           Inl error \<Rightarrow> error = GIT_ENOTFOUND \<and> head_oid head \<noteq> zero_id
         | Inr old \<Rightarrow> old \<noteq> head_oid head)"
    have "step = update_tips_store callbacks ?auto odb head dest (repo1, heads1)"
      using store p by (auto split: if_splits)
    then show "\<exists>e tail. new_events repo1 repo2 =
           Reference_create dest (head_oid head) (tagopt \<noteq> GIT_REMOTE_DOWNLOAD_TAGS_AUTO) e # tail"
      using update_tips_store_creates [of dest ?auto odb head repo1 callbacks heads1] p repo2
      by simp
  qed
  from a b c d e f g h show ?thesis by blast
qed

theorem update_tips_tag_policy_witness:
  "update_tips_for_spec spec_api None False GIT_REMOTE_DOWNLOAD_TAGS_AUTO origin_heads_spec
     (two_branches @ [tag_v1]) repository_with_tag_v1
   = (0, repository_with_tag_v1
        \<lparr>repo_refs := [(''refs/tags/v1'', Direct 4),
                       (''refs/remotes/origin/main'', Direct 11),
                       (''refs/remotes/origin/dev'', Direct 12)],
         repo_trace :=
           [Reference_create ''refs/remotes/origin/main'' 11 True 0,
            Reference_create ''refs/remotes/origin/dev'' 12 True 0,
            Reference_create ''refs/tags/v1'' 5 False GIT_EEXISTS]\<rparr>) \<and>
   update_tips_loop spec_api None GIT_REMOTE_DOWNLOAD_TAGS_AUTO origin_heads_spec builtin_tagspec
     [4, 5] two_branches (repository_with_tag_v1, [])
   = (True, repository_with_tag_v1
        \<lparr>repo_refs := [(''refs/tags/v1'', Direct 4),
                       (''refs/remotes/origin/main'', Direct 11),
                       (''refs/remotes/origin/dev'', Direct 12)],
         repo_trace :=
           [Reference_create ''refs/remotes/origin/main'' 11 True 0,
            Reference_create ''refs/remotes/origin/dev'' 12 True 0]\<rparr>, two_branches) \<and>
   \<not> is_on_error
     (update_tips_head spec_api None GIT_REMOTE_DOWNLOAD_TAGS_AUTO origin_heads_spec builtin_tagspec
        [4, 5] tag_v1
        (repository_with_tag_v1
           \<lparr>repo_refs := [(''refs/tags/v1'', Direct 4),
                          (''refs/remotes/origin/main'', Direct 11),
                          (''refs/remotes/origin/dev'', Direct 12)],
            repo_trace :=
              [Reference_create ''refs/remotes/origin/main'' 11 True 0,
               Reference_create ''refs/remotes/origin/dev'' 12 True 0]\<rparr>, two_branches))"
proof -
  let ?refs = "[(''refs/tags/v1'', Direct 4),
                (''refs/remotes/origin/main'', Direct 11),
                (''refs/remotes/origin/dev'', Direct 12)]"
  let ?repo1 = "repository_with_tag_v1
        \<lparr>repo_refs := ?refs,
         repo_trace :=
           [Reference_create ''refs/remotes/origin/main'' 11 True 0,
            Reference_create ''refs/remotes/origin/dev'' 12 True 0]\<rparr>"
  let ?repo2 = "repository_with_tag_v1
        \<lparr>repo_refs := ?refs,
         repo_trace :=
           [Reference_create ''refs/remotes/origin/main'' 11 True 0,
            Reference_create ''refs/remotes/origin/dev'' 12 True 0,
            Reference_create ''refs/tags/v1'' 5 False GIT_EEXISTS]\<rparr>"
  let ?step = "update_tips_head spec_api None GIT_REMOTE_DOWNLOAD_TAGS_AUTO origin_heads_spec
      builtin_tagspec [4, 5] tag_v1 (?repo1, two_branches)"
  have run: "update_tips_for_spec spec_api None False GIT_REMOTE_DOWNLOAD_TAGS_AUTO
      origin_heads_spec (two_branches @ [tag_v1]) repository_with_tag_v1 = (0, ?repo2)"
    by (simp add: update_tips_eval spec_api_eval tag_v1_def two_branches_def
        origin_heads_spec_def repository_with_tag_v1_def git_codes)
  have odb: "git_repository_odb__weakptr repository_with_tag_v1 = Inr [4, 5]"
    by (simp add: git_repository_odb__weakptr_def repository_with_tag_v1_def)
  have parse: "git_refspec__parse spec_api GIT_REFSPEC_TAGS True = Some builtin_tagspec"
    by (simp add: spec_api_eval GIT_REFSPEC_TAGS_def builtin_tagspec_def)
  have refs: "two_branches @ [tag_v1] = two_branches @ tag_v1 # []" by simp
  have before: "update_tips_loop spec_api None GIT_REMOTE_DOWNLOAD_TAGS_AUTO origin_heads_spec
      builtin_tagspec [4, 5] two_branches (repository_with_tag_v1, []) = (True, ?repo1, two_branches)"
    by (simp add: update_tips_eval spec_api_eval two_branches_def builtin_tagspec_def
        origin_heads_spec_def repository_with_tag_v1_def git_codes)
  have valid: "git_reference_is_valid_name spec_api (head_name tag_v1)"
    by (simp add: spec_api_eval tag_v1_def)
  have tag: "git_refspec_src_matches spec_api builtin_tagspec (head_name tag_v1)"
    by (simp add: spec_api_eval tag_v1_def builtin_tagspec_def)
  have policy: "GIT_REMOTE_DOWNLOAD_TAGS_AUTO \<noteq> GIT_REMOTE_DOWNLOAD_TAGS_NONE" by simp
  have step: "?step = Continue (?repo2, two_branches)"
    by (simp add: update_tips_eval spec_api_eval tag_v1_def builtin_tagspec_def
        origin_heads_spec_def repository_with_tag_v1_def git_codes)
  have repo2: "?repo2 = fst (step_state ?step)" by (simp only: step step_state.simps fst_conv)
  have ev: "Reference_create ''refs/tags/v1'' 5 False GIT_EEXISTS \<in> set (new_events ?repo1 ?repo2)"
    by (simp add: new_events_def repository_with_tag_v1_def)
  have "\<not> is_on_error ?step"
    using update_tips_tag_policy [OF run odb parse refs before valid tag policy refl repo2] ev
    by blast
  then show ?thesis using run before by simp
qed

text \<open>
  C5 as stated fails under the ALL policy when the refspec being processed matches the
  tag itself: the head \<^verbatim>\<open>refs/tags/v1\<close> matches the built-in tag spec and the policy is
  not NONE, but the reference is created under the name that the refspec's transform
  gives, not under the head's name.
\<close>

theorem update_tips_tag_destination_counterexample:
  "git_refspec_src_matches spec_api builtin_tagspec (head_name tag_v1) \<and>
   update_tips_for_spec spec_api None False GIT_REMOTE_DOWNLOAD_TAGS_ALL tags_mirror_spec
     [tag_v1] empty_repository
   = (0, empty_repository
        \<lparr>repo_refs := [(''refs/remotes/origin/tags/v1'', Direct 5)],
         repo_trace := [Reference_create ''refs/remotes/origin/tags/v1'' 5 True 0]\<rparr>)"
  by (simp add: update_tips_eval spec_api_eval tag_v1_def builtin_tagspec_def
      tags_mirror_spec_def empty_repository_def git_codes)

subsection \<open>C3: pruning\<close>

lemma prune_find_source_result:
  assumes "\<forall>spec \<in> set specs. git_refspec_dst_matches api spec refname \<longrightarrow>
      (\<exists>source. git_refspec_rtransform api spec refname = Inr source)"
  shows "\<exists>e. prune_find_source api heads refname specs error =
      Inr (e, prune_advertised api heads specs refname)"
  using assms
proof (induction specs arbitrary: error)
  case Nil
  show ?case by (simp add: prune_advertised_def)
next
  case (Cons spec specs)
  show ?case
  proof (cases "git_refspec_dst_matches api spec refname")
    case False
    then show ?thesis using Cons.IH [of error] Cons.prems
      by (simp add: prune_advertised_def)
  next
    case True
    then obtain source where src: "git_refspec_rtransform api spec refname = Inr source"
      using Cons.prems by auto
    show ?thesis
    proof (cases "source \<in> head_name ` set heads")
      case True
      then show ?thesis using \<open>git_refspec_dst_matches api spec refname\<close> src
        by (simp add: prune_advertised_def git_vector_bsearch_def GIT_ENOTFOUND_def)
    next
      case False
      then show ?thesis
        using \<open>git_refspec_dst_matches api spec refname\<close> src
          Cons.IH [of GIT_ENOTFOUND] Cons.prems
        by (simp add: prune_advertised_def git_vector_bsearch_def GIT_ENOTFOUND_def)
    qed
  qed
qed

lemma prune_mark_result:
  assumes "\<forall>spec \<in> set specs. \<forall>n. git_refspec_dst_matches api spec n \<longrightarrow>
      (\<exists>source. git_refspec_rtransform api spec n = Inr source)"
  shows "\<exists>e. prune_mark api heads specs candidates error =
      Inr (e, map (\<lambda>n. if prune_advertised api heads specs n then None else Some n) candidates)"
proof (induction candidates arbitrary: error)
  case Nil
  show ?case by simp
next
  case (Cons refname candidates)
  from assms have "\<forall>spec \<in> set specs. git_refspec_dst_matches api spec refname \<longrightarrow>
      (\<exists>source. git_refspec_rtransform api spec refname = Inr source)"
    by blast
  from prune_find_source_result [OF this, of heads error]
  obtain e1 where f: "prune_find_source api heads refname specs error =
      Inr (e1, prune_advertised api heads specs refname)"
    by blast
  from Cons.IH [of e1] obtain e2 where m: "prune_mark api heads specs candidates e1 =
      Inr (e2, map (\<lambda>n. if prune_advertised api heads specs n then None else Some n) candidates)"
    by blast
  show ?case by (simp add: f m)
qed

lemma map_of_filter_other:
  "m \<noteq> n \<Longrightarrow> map_of (filter (\<lambda>(k, r). k \<noteq> n) refs) m = map_of refs m"
  by (induction refs) auto

lemma candidate_events_filter:
  assumes "Some n \<notin> set candidates"
  shows "map (candidate_events callbacks (filter (\<lambda>(k, r). k \<noteq> n) refs)) candidates =
     map (candidate_events callbacks refs) candidates"
proof (rule map_cong [OF refl])
  fix c assume "c \<in> set candidates"
  then have "c \<noteq> Some n" using assms by auto
  then show "candidate_events callbacks (filter (\<lambda>(k, r). k \<noteq> n) refs) c =
      candidate_events callbacks refs c"
    by (cases c) (auto simp: candidate_events_def map_of_filter_other)
qed

lemma candidate_names_simps [simp]:
  "candidate_names [] = []"
  "candidate_names (None # cs) = candidate_names cs"
  "candidate_names (Some n # cs) = n # candidate_names cs"
  by (simp_all add: candidate_names_def)

lemma set_candidate_names: "n \<in> set (candidate_names cs) \<longleftrightarrow> Some n \<in> set cs"
  by (induction cs) (auto simp: candidate_names_def split: option.splits)

lemma pruned_Nil: "pruned callbacks [] repo = repo"
  by (simp add: pruned_def)

lemma pruned_None: "pruned callbacks (None # cs) repo = pruned callbacks cs repo"
  by (simp add: pruned_def candidate_events_def)

lemma pruned_absent:
  assumes "map_of (repo_refs repo) n = None"
  shows "pruned callbacks (Some n # cs) repo = pruned callbacks cs repo"
proof -
  have "filter (\<lambda>(k, r). \<not> (Some k \<in> set (Some n # cs) \<and> is_direct r)) (repo_refs repo) =
      filter (\<lambda>(k, r). \<not> (Some k \<in> set cs \<and> is_direct r)) (repo_refs repo)"
    using assms by (intro filter_cong refl) (auto simp: map_of_eq_None_iff image_iff)
  then show ?thesis using assms by (simp add: pruned_def candidate_events_def)
qed

lemma ref_lookup_unique:
  assumes "distinct (map fst refs)" and "map_of refs n = Some r" and "(n, r') \<in> set refs"
  shows "r' = r"
  using assms by simp

lemma pruned_symbolic:
  assumes "map_of (repo_refs repo) n = Some (Symbolic t)"
    and "distinct (map fst (repo_refs repo))"
  shows "pruned callbacks (Some n # cs) repo = pruned callbacks cs repo"
proof -
  have "filter (\<lambda>(k, r). \<not> (Some k \<in> set (Some n # cs) \<and> is_direct r)) (repo_refs repo) =
      filter (\<lambda>(k, r). \<not> (Some k \<in> set cs \<and> is_direct r)) (repo_refs repo)"
  proof (intro filter_cong refl)
    fix x assume x: "x \<in> set (repo_refs repo)"
    obtain k r where kr: "x = (k, r)" by (cases x)
    have "k = n \<Longrightarrow> r = Symbolic t"
      using ref_lookup_unique [OF assms(2) assms(1)] x kr by simp
    then show "(case x of (k, r) \<Rightarrow> \<not> (Some k \<in> set (Some n # cs) \<and> is_direct r)) =
        (case x of (k, r) \<Rightarrow> \<not> (Some k \<in> set cs \<and> is_direct r))"
      by (auto simp: kr)
  qed
  then show ?thesis
    using assms by (simp add: pruned_def candidate_events_def prune_target_events_def)
qed

lemma pruned_direct:
  assumes "map_of (repo_refs repo) n = Some (Direct oid)"
    and "distinct (map fst (repo_refs repo))"
    and "Some n \<notin> set cs"
    and "repo_refs repo1 = filter (\<lambda>(k, r). k \<noteq> n) (repo_refs repo)"
    and "repo_trace repo1 = repo_trace repo @ prune_target_events callbacks n (Direct oid)"
    and "repo_odb repo1 = repo_odb repo" and "repo_config repo1 = repo_config repo"
    and "config_write_result repo1 = config_write_result repo"
  shows "pruned callbacks cs repo1 = pruned callbacks (Some n # cs) repo"
proof -
  have refs: "filter (\<lambda>(k, r). \<not> (Some k \<in> set cs \<and> is_direct r))
        (filter (\<lambda>(k, r). k \<noteq> n) (repo_refs repo)) =
      filter (\<lambda>(k, r). \<not> (Some k \<in> set (Some n # cs) \<and> is_direct r)) (repo_refs repo)"
    unfolding filter_filter
  proof (intro filter_cong refl)
    fix x assume x: "x \<in> set (repo_refs repo)"
    obtain k r where kr: "x = (k, r)" by (cases x)
    have "k = n \<Longrightarrow> r = Direct oid"
      using ref_lookup_unique [OF assms(2) assms(1)] x kr by simp
    then show "((case x of (k, r) \<Rightarrow> k \<noteq> n) \<and>
          (case x of (k, r) \<Rightarrow> \<not> (Some k \<in> set cs \<and> is_direct r))) =
        (case x of (k, r) \<Rightarrow> \<not> (Some k \<in> set (Some n # cs) \<and> is_direct r))"
      by (auto simp: kr)
  qed
  have evs: "map (candidate_events callbacks (filter (\<lambda>(k, r). k \<noteq> n) (repo_refs repo))) cs =
      map (candidate_events callbacks (repo_refs repo)) cs"
    by (rule candidate_events_filter [OF assms(3)])
  have first: "candidate_events callbacks (repo_refs repo) (Some n) =
      prune_target_events callbacks n (Direct oid)"
    using assms(1) by (simp add: candidate_events_def)
  have r: "repo_refs (pruned callbacks cs repo1) = repo_refs (pruned callbacks (Some n # cs) repo)"
    by (simp only: pruned_def assms(4) refs) simp
  have t: "repo_trace (pruned callbacks cs repo1) = repo_trace (pruned callbacks (Some n # cs) repo)"
    by (simp only: pruned_def assms(4,5) evs) (simp add: first)
  show ?thesis
    by (rule git_repository.equality) (simp_all add: r t, simp_all add: pruned_def assms(6-8))
qed

lemma prune_delete_result:
  assumes "hook_accepts callbacks"
  shows "distinct (map fst (repo_refs repo)) \<Longrightarrow> distinct (candidate_names candidates) \<Longrightarrow>
     snd (prune_delete callbacks candidates error repo) = pruned callbacks candidates repo"
proof (induction candidates arbitrary: error repo)
  case Nil
  show ?case by (simp add: pruned_Nil)
next
  case (Cons c cs)
  show ?case
  proof (cases c)
    case None
    then show ?thesis using Cons by (simp add: pruned_None)
  next
    case (Some n)
    have notin: "Some n \<notin> set cs" and dcs: "distinct (candidate_names cs)"
      using Cons.prems(2) Some by (simp_all add: set_candidate_names)
    show ?thesis
    proof (cases "map_of (repo_refs repo) n")
      case None
      then show ?thesis
        using Some Cons.IH [OF Cons.prems(1) dcs, of GIT_ENOTFOUND]
        by (simp add: git_reference_lookup_def pruned_absent)
    next
      case (Some ref)
      show ?thesis
      proof (cases ref)
        case (Symbolic t)
        then show ?thesis
          using \<open>c = Some n\<close> Some Cons.IH [OF Cons.prems(1) dcs, of 0] Cons.prems(1)
          by (simp add: git_reference_lookup_def pruned_symbolic)
      next
        case (Direct oid)
        define repo1 where "repo1 = snd (git_reference_delete repo n)"
        define step where "step =
          (case callbacks of
             None \<Rightarrow> (0, repo1)
           | Some cbs \<Rightarrow>
               (case update_tips cbs of
                  None \<Rightarrow> (0, repo1)
                | Some f \<Rightarrow> call_update_tips f n oid zero_id repo1))"
        have del: "git_reference_delete repo n = (0, repo1)"
          by (simp add: repo1_def git_reference_delete_def)
        have nonneg: "\<not> fst step < 0"
          using assms
          by (auto simp: step_def hook_accepts_def call_update_tips_def not_less
              split: option.splits)
        obtain e2 r2 where st: "step = (e2, r2)" by (cases step)
        have "prune_delete callbacks (c # cs) error repo =
            (case step of (e, r) \<Rightarrow> if e < 0 then (e, r) else prune_delete callbacks cs e r)"
          unfolding step_def using \<open>c = Some n\<close> Some Direct
          by (simp add: git_reference_lookup_def del)
        then have run: "prune_delete callbacks (c # cs) error repo =
            prune_delete callbacks cs (fst step) (snd step)"
          using nonneg by (simp add: st)
        have refs2: "repo_refs (snd step) = filter (\<lambda>(k, r). k \<noteq> n) (repo_refs repo)"
          by (auto simp: step_def repo1_def git_reference_delete_def call_update_tips_def
              split: option.splits)
        have trace2: "repo_trace (snd step) =
            repo_trace repo @ prune_target_events callbacks n (Direct oid)"
          by (auto simp: step_def repo1_def git_reference_delete_def call_update_tips_def
              prune_target_events_def split: option.splits)
        have rest: "repo_odb (snd step) = repo_odb repo"
          "repo_config (snd step) = repo_config repo"
          "config_write_result (snd step) = config_write_result repo"
          by (auto simp: step_def repo1_def git_reference_delete_def call_update_tips_def
              split: option.splits)
        have d2: "distinct (map fst (repo_refs (snd step)))"
          using Cons.prems(1) by (simp add: refs2 distinct_map_filter)
        have "snd (prune_delete callbacks cs (fst step) (snd step)) = pruned callbacks cs (snd step)"
          by (rule Cons.IH [OF d2 dcs])
        also have "\<dots> = pruned callbacks (Some n # cs) repo"
          using Some Direct
          by (intro pruned_direct [OF _ Cons.prems(1) notin refs2 trace2 rest]) simp
        finally show ?thesis using run \<open>c = Some n\<close> by simp
      qed
    qed
  qed
qed

lemma matching_dst_refspec_iff:
  "git_remote__matching_dst_refspec api remote n \<noteq> None \<longleftrightarrow>
     (\<exists>spec \<in> set (active_refspecs remote).
        \<not> spec_push spec \<and> git_refspec_dst_matches api spec n)"
  by (auto simp: git_remote__matching_dst_refspec_def find_None_iff)

lemma prune_target_iff:
  assumes "\<forall>spec \<in> set (active_refspecs remote). \<forall>n. git_refspec_dst_matches api spec n \<longrightarrow>
      (\<exists>source. git_refspec_rtransform api spec n = Inr source)"
  shows "prune_target api remote heads n r \<longleftrightarrow>
     git_remote__matching_dst_refspec api remote n \<noteq> None \<and>
     \<not> prune_advertised api heads (active_refspecs remote) n \<and> is_direct r"
proof -
  have "(\<forall>spec \<in> set (active_refspecs remote).
        git_refspec_dst_matches api spec n \<longrightarrow>
        (case git_refspec_rtransform api spec n of
           Inl error \<Rightarrow> True
         | Inr source \<Rightarrow> source \<notin> head_name ` set heads)) \<longleftrightarrow>
      \<not> prune_advertised api heads (active_refspecs remote) n"
    unfolding prune_advertised_def using assms by (fastforce split: sum.splits)
  moreover have "(case r of Direct oid \<Rightarrow> True | Symbolic target \<Rightarrow> False) = is_direct r"
    by (cases r) simp_all
  ultimately show ?thesis
    unfolding prune_target_def matching_dst_refspec_iff by simp
qed

lemma prune_events_of_targets:
  assumes "distinct (map fst refs)" and "set xs \<subseteq> set refs"
    and "\<And>n r. target n r \<longleftrightarrow> matching n \<and> \<not> adv n \<and> is_direct r"
  shows "concat (map (candidate_events callbacks refs)
        (map (\<lambda>n. if adv n then None else Some n) (filter matching (map fst xs)))) =
     concat (map (\<lambda>(n, r). prune_target_events callbacks n r)
        (filter (\<lambda>(n, r). target n r) xs))"
  using assms(2)
proof (induction xs)
  case Nil
  show ?case by simp
next
  case (Cons x xs)
  obtain n r where x: "x = (n, r)" by (cases x)
  have look: "map_of refs n = Some r" using Cons.prems assms(1) x by simp
  have sym: "\<not> is_direct r \<Longrightarrow> prune_target_events callbacks n r = []"
    by (cases r) (simp_all add: prune_target_events_def)
  from Cons have IH: "concat (map (candidate_events callbacks refs)
        (map (\<lambda>n. if adv n then None else Some n) (filter matching (map fst xs)))) =
     concat (map (\<lambda>(n, r). prune_target_events callbacks n r)
        (filter (\<lambda>(n, r). target n r) xs))"
    by simp
  have some: "candidate_events callbacks refs (Some n) = prune_target_events callbacks n r"
    using look by (simp add: candidate_events_def)
  have none: "candidate_events callbacks refs None = []"
    by (simp add: candidate_events_def)
  show ?case
    using IH sym by (simp add: x assms(3) some none)
qed

lemma candidate_names_marked:
  "candidate_names (map (\<lambda>n. if adv n then None else Some n) xs) = filter (\<lambda>n. \<not> adv n) xs"
  by (induction xs) simp_all

text \<open>
  C3 (amended). When the reference names are distinct, the transport lists the advertised
  heads, the callbacks pass the version test, the hook never returns a negative code for a
  removal and the reverse transform succeeds wherever a destination matches, prune removes
  exactly the references whose name destination-matches some active fetch refspec, whose
  reverse transform is an advertised name under no active refspec that their name
  destination-matches, and which are not symbolic. For each reference so deleted, in the
  order of the reference list, the reference is deleted and then the \<^verbatim>\<open>update_tips\<close>
  callback, when one is set, is called with the name, the old id and the all-zero id.
\<close>

theorem prune_removes_unadvertised:
  assumes "distinct (map fst (repo_refs repo))"
    and "git_remote_ls (remote_transport remote) = Inr heads"
    and "callbacks_version_ok callbacks"
    and "hook_accepts callbacks"
    and "\<forall>spec \<in> set (active_refspecs remote). \<forall>n. git_refspec_dst_matches api spec n \<longrightarrow>
      (\<exists>source. git_refspec_rtransform api spec n = Inr source)"
  shows "snd (git_remote_prune api remote callbacks repo) =
     repo\<lparr>repo_refs :=
            filter (\<lambda>(n, r). \<not> prune_target api remote heads n r) (repo_refs repo),
          repo_trace :=
            repo_trace repo @
            concat (map (\<lambda>(n, r). prune_target_events callbacks n r)
              (filter (\<lambda>(n, r). prune_target api remote heads n r) (repo_refs repo)))\<rparr>"
proof -
  let ?specs = "active_refspecs remote"
  let ?matching = "\<lambda>n. git_remote__matching_dst_refspec api remote n \<noteq> None"
  let ?adv = "prune_advertised api heads ?specs"
  let ?cands = "filter ?matching (map fst (repo_refs repo))"
  let ?marked = "map (\<lambda>n. if ?adv n then None else Some n) ?cands"
  from prune_mark_result [OF assms(5), of heads ?cands 0]
  obtain e where mark: "prune_mark api heads ?specs ?cands 0 = Inr (e, ?marked)"
    by blast
  have version: "\<not> (case callbacks of
            None \<Rightarrow> False
          | Some cbs \<Rightarrow>
              git_error__check_version (cb_version cbs) GIT_REMOTE_CALLBACKS_VERSION < 0)"
    using assms(3)
    by (auto simp: callbacks_version_ok_def git_error__check_version_def split: option.splits)
  have run: "git_remote_prune api remote callbacks repo = prune_delete callbacks ?marked e repo"
    unfolding git_remote_prune_def using version
    by (simp add: ls_to_vector_def assms(2) prune_candidates_def git_reference_list_def mark
        del: not_None_eq)
  have names: "candidate_names ?marked = filter (\<lambda>n. \<not> ?adv n) ?cands"
    by (rule candidate_names_marked)
  have "distinct (candidate_names ?marked)"
    unfolding names using assms(1) by simp
  from prune_delete_result [OF assms(4) assms(1) this, of e]
  have res: "snd (prune_delete callbacks ?marked e repo) = pruned callbacks ?marked repo" .
  have target: "\<And>n r. prune_target api remote heads n r \<longleftrightarrow>
      ?matching n \<and> \<not> ?adv n \<and> is_direct r"
    by (rule prune_target_iff [OF assms(5)])
  have refs: "filter (\<lambda>(n, r). \<not> (Some n \<in> set ?marked \<and> is_direct r)) (repo_refs repo) =
      filter (\<lambda>(n, r). \<not> prune_target api remote heads n r) (repo_refs repo)"
  proof (intro filter_cong refl)
    fix x assume x: "x \<in> set (repo_refs repo)"
    obtain n r where nr: "x = (n, r)" by (cases x)
    have "n \<in> set (map fst (repo_refs repo))" using x nr by force
    then have "n \<in> set (candidate_names ?marked) \<longleftrightarrow> ?matching n \<and> \<not> ?adv n"
      unfolding names by (simp del: not_None_eq)
    then have mem: "Some n \<in> set ?marked \<longleftrightarrow> ?matching n \<and> \<not> ?adv n"
      unfolding set_candidate_names .
    show "(case x of (n, r) \<Rightarrow> \<not> (Some n \<in> set ?marked \<and> is_direct r)) =
        (case x of (n, r) \<Rightarrow> \<not> prune_target api remote heads n r)"
      unfolding nr target by (simp only: prod.case mem conj_assoc)
  qed
  have evs: "concat (map (candidate_events callbacks (repo_refs repo)) ?marked) =
      concat (map (\<lambda>(n, r). prune_target_events callbacks n r)
        (filter (\<lambda>(n, r). prune_target api remote heads n r) (repo_refs repo)))"
    by (rule prune_events_of_targets [OF assms(1) subset_refl target])
  show ?thesis
    unfolding run res pruned_def refs evs ..
qed

lemmas prune_eval =
  git_remote_prune_def ls_to_vector_def git_remote_ls_def prune_candidates_def
  git_reference_list_def git_remote__matching_dst_refspec_def git_vector_bsearch_def
  git_reference_lookup_def git_reference_delete_def call_update_tips_def
  git_error__check_version_def GIT_REMOTE_CALLBACKS_VERSION_def zero_id_def

theorem prune_removes_unadvertised_witness:
  "snd (git_remote_prune spec_api origin_remote
     (Some \<lparr>cb_version = 1, update_tips = Some (\<lambda>refname old new. 0)\<rparr>) stale_repository)
   = stale_repository
       \<lparr>repo_refs :=
          [(''refs/remotes/origin/main'', Direct 11),
           (''refs/remotes/origin/HEAD'', Symbolic ''refs/remotes/origin/main'')],
        repo_trace :=
          [Reference_delete ''refs/remotes/origin/stale'' 0,
           Update_tips ''refs/remotes/origin/stale'' 13 0 0]\<rparr>"
proof -
  let ?cbs = "Some \<lparr>cb_version = 1, update_tips = Some (\<lambda>refname (old :: git_oid) (new :: git_oid). 0 :: int)\<rparr>"
  let ?heads = "[\<lparr>head_name = ''refs/heads/main'', head_oid = 11, symref_target = None\<rparr>]"
  have h1: "distinct (map fst (repo_refs stale_repository))"
    by (simp add: stale_repository_def)
  have h2: "git_remote_ls (remote_transport origin_remote) = Inr ?heads"
    by (simp add: git_remote_ls_def origin_remote_def)
  have h3: "callbacks_version_ok ?cbs"
    by (simp add: callbacks_version_ok_def GIT_REMOTE_CALLBACKS_VERSION_def)
  have h4: "hook_accepts ?cbs"
    by (simp add: hook_accepts_def)
  have h5: "\<forall>spec \<in> set (active_refspecs origin_remote). \<forall>n.
      git_refspec_dst_matches spec_api spec n \<longrightarrow>
      (\<exists>source. git_refspec_rtransform spec_api spec n = Inr source)"
    by (simp add: origin_remote_def origin_heads_spec_def spec_api_def)
  show ?thesis
    unfolding prune_removes_unadvertised [OF h1 h2 h3 h4 h5]
    by (simp add: prune_target_def prune_target_events_def stale_repository_def
        origin_remote_def origin_heads_spec_def spec_api_eval zero_id_def)
qed

text \<open>
  C3 as stated fails when two active refspecs have overlapping destinations. The
  reference \<^verbatim>\<open>refs/remotes/origin/pr/1\<close> destination-matches the active fetch refspec
  \<^verbatim>\<open>+refs/heads/*:refs/remotes/origin/*\<close>, its reverse transform under that refspec,
  \<^verbatim>\<open>refs/heads/pr/1\<close>, is not advertised, and it is not symbolic; but under the second
  active refspec its reverse transform \<^verbatim>\<open>refs/pull/1\<close> is advertised, and prune keeps it.
\<close>

theorem prune_overlapping_counterexample:
  "\<not> spec_push origin_heads_spec \<and>
   git_refspec_dst_matches spec_api origin_heads_spec ''refs/remotes/origin/pr/1'' \<and>
   git_refspec_rtransform spec_api origin_heads_spec ''refs/remotes/origin/pr/1''
     = Inr ''refs/heads/pr/1'' \<and>
   git_remote_ls (remote_transport overlapping_remote)
     = Inr [\<lparr>head_name = ''refs/pull/1'', head_oid = 9, symref_target = None\<rparr>] \<and>
   git_remote_prune spec_api overlapping_remote None pull_repository = (0, pull_repository)"
  by (simp add: prune_eval spec_api_eval overlapping_remote_def origin_remote_def
      pull_repository_def origin_heads_spec_def pull_spec_def git_codes)

subsection \<open>C10: adding a refspec to the configuration\<close>





subsection \<open>C7: looking up a remote\<close>

lemma apply_insteadof_Some: "\<exists>u. apply_insteadof config url direction = Some u"
proof -
  let ?sfx = "if direction = GIT_DIRECTION_FETCH then SUFFIX_FETCH else SUFFIX_PUSH"
  let ?es = "filter (\<lambda>entry. glob_matches PREFIX ?sfx (entry_name entry)) config"
  let ?loop = "insteadof_loop url (length PREFIX + 1) (length ?sfx + 1) ?es 0 None"
  have unfold: "apply_insteadof config url direction =
      (case ?loop of
         (match_length, replacement) \<Rightarrow>
           if match_length = 0 then Some url
           else (case replacement of None \<Rightarrow> None | Some r \<Rightarrow> Some (r @ drop match_length url)))"
    by (simp add: apply_insteadof_def git_config_iterator_glob_new_def Let_def)
  from insteadof_loop_result [of 0 url ?es "length PREFIX + 1" "length ?sfx + 1" None]
  consider "?loop = (0, None)" | m r where "?loop = (m, Some r)"
    by blast
  then show ?thesis
  proof cases
    case 1
    then show ?thesis unfolding unfold by simp
  next
    case 2
    then show ?thesis unfolding unfold by simp
  qed
qed

lemma get_optional_config_string:
  "get_optional_config config key None (v0, r) =
     (0, config_is_set config key,
      (case config_multivar config key of [] \<Rightarrow> v0 | v # vs \<Rightarrow> Some (last (v # vs))), r)"
  by (simp add: get_optional_config_def git_config_get_string_def config_is_set_def
      GIT_ENOTFOUND_def split: list.splits)

lemma git_remote_lookup_urls_result:
  "git_remote_lookup_urls config nm
     \<lparr>remote_name = n, remote_url = None, remote_pushurl = None, has_repo = hr, refspecs = rs,
      active_refspecs = as, passive_refspecs = ps, download_tags = dt, prune_refs = pr,
      remote_transport = tr\<rparr> =
   (if \<not> config_is_set config (CONFIG_URL_FMT nm) \<and> \<not> config_is_set config (CONFIG_PUSHURL_FMT nm)
    then Inl GIT_ENOTFOUND
    else Inr \<lparr>remote_name = n,
              remote_url = configured_url config (CONFIG_URL_FMT nm) GIT_DIRECTION_FETCH,
              remote_pushurl = configured_url config (CONFIG_PUSHURL_FMT nm) GIT_DIRECTION_PUSH,
              has_repo = True, refspecs = rs, active_refspecs = as, passive_refspecs = ps,
              download_tags = GIT_REMOTE_DOWNLOAD_TAGS_AUTO, prune_refs = pr,
              remote_transport = tr\<rparr>)"
proof -
  have some: "\<And>url direction. apply_insteadof config url direction \<noteq> None"
    using apply_insteadof_Some [of config] by auto
  show ?thesis
    by (auto simp: git_remote_lookup_urls_def get_optional_config_string Let_def some
        config_is_set_def configured_url_def c_str_def split: list.splits)
qed

lemma multivar_foreach_refspecs:
  assumes "\<forall>v \<in> set vs. git_refspec__parse api v fetch \<noteq> None"
  shows "multivar_foreach (refspec_cb api fetch) vs remote =
     (0, remote\<lparr>refspecs := refspecs remote @
           map (\<lambda>v. (the (git_refspec__parse api v fetch))\<lparr>spec_push := \<not> fetch\<rparr>) vs\<rparr>)"
  using assms
  by (induction vs arbitrary: remote)
    (auto simp: refspec_cb_def add_refspec_def add_refspec_to_def)

lemma multivar_foreach_code:
  "fst (multivar_foreach (refspec_cb api fetch) vs remote) = 0 \<or>
   fst (multivar_foreach (refspec_cb api fetch) vs remote) = - 1"
  by (induction vs arbitrary: remote)
    (auto simp: refspec_cb_def add_refspec_def add_refspec_to_def split: option.splits)

lemma get_optional_config_refspecs:
  assumes "\<forall>v \<in> set (config_multivar config key). git_refspec__parse api v fetch \<noteq> None"
  shows "get_optional_config config key (Some (refspec_cb api fetch)) (v0, remote) =
     (0, config_multivar config key \<noteq> [], v0,
      remote\<lparr>refspecs := refspecs remote @
           map (\<lambda>v. (the (git_refspec__parse api v fetch))\<lparr>spec_push := \<not> fetch\<rparr>)
             (config_multivar config key)\<rparr>)"
proof (cases "config_multivar config key")
  case Nil
  then show ?thesis
    by (simp add: get_optional_config_def git_config_get_multivar_foreach_def GIT_ENOTFOUND_def)
next
  case (Cons v vs)
  then show ?thesis
    using multivar_foreach_refspecs [OF assms, of remote]
    by (simp add: get_optional_config_def git_config_get_multivar_foreach_def GIT_ENOTFOUND_def)
qed

lemma get_optional_config_code:
  "fst (get_optional_config config key (Some (refspec_cb api fetch)) (v0, remote)) = 0 \<or>
   fst (get_optional_config config key (Some (refspec_cb api fetch)) (v0, remote)) = - 1"
proof (cases "config_multivar config key")
  case Nil
  then show ?thesis
    by (simp add: get_optional_config_def git_config_get_multivar_foreach_def GIT_ENOTFOUND_def)
next
  case (Cons v vs)
  then show ?thesis
    using multivar_foreach_code [of api fetch "v # vs" remote]
    by (auto simp: get_optional_config_def git_config_get_multivar_foreach_def GIT_ENOTFOUND_def
        split: prod.splits)
qed

lemma download_tags_value_result:
  "download_tags_value remote config =
     (0, case config_multivar config (CONFIG_TAGOPT_FMT (c_str (remote_name remote))) of
           [] \<Rightarrow> remote
         | v # vs \<Rightarrow>
             if last (v # vs) = ''--no-tags''
             then remote\<lparr>download_tags := GIT_REMOTE_DOWNLOAD_TAGS_NONE\<rparr>
             else if last (v # vs) = ''--tags''
             then remote\<lparr>download_tags := GIT_REMOTE_DOWNLOAD_TAGS_ALL\<rparr>
             else remote)"
  by (simp add: download_tags_value_def git_config__lookup_entry_def split: list.splits)

lemma git_config_get_bool_result:
  "git_config_get_bool config key =
     (case config_multivar config key of
        [] \<Rightarrow> Inl GIT_ENOTFOUND
      | v # vs \<Rightarrow> git_config_parse_bool (last (v # vs)))"
  by (simp add: git_config_get_bool_def git_config_get_string_def split: list.splits)

lemma git_config_parse_bool_code:
  "git_config_parse_bool v = Inl e \<Longrightarrow> e = - 1"
  by (auto simp: git_config_parse_bool_def split: if_splits)

lemma lookup_remote_prune_config_result:
  "lookup_remote_prune_config remote config nm =
     (case configured_prune config nm of
        Inl e \<Rightarrow> (- 1, remote)
      | Inr b \<Rightarrow>
          (0, if config_is_set config (''remote.'' @ nm @ ''.prune'') \<or>
                 config_is_set config ''fetch.prune''
              then remote\<lparr>prune_refs := b\<rparr> else remote))"
  by (auto simp: lookup_remote_prune_config_def git_config_get_bool_result configured_prune_def
      config_is_set_def GIT_ENOTFOUND_def dest: git_config_parse_bool_code
      split: list.splits sum.splits)

lemma dwim_refspecs_code:
  "fst (dwim_refspecs api out specs refs) = 0 \<or> fst (dwim_refspecs api out specs refs) = - 1"
  by (induction specs arbitrary: out) (auto split: sum.splits)

lemma git_remote_lookup_settings_code:
  assumes "git_remote_lookup_settings api config nm remote = Inl e"
  shows "e = - 1"
proof -
  note c1 = get_optional_config_code [of config "CONFIG_FETCH_FMT nm" api True None remote]
  show ?thesis
  proof (cases "get_optional_config config (CONFIG_FETCH_FMT nm) (Some (refspec_cb api True))
      (None, remote)")
    case (fields e1 f1 v1 r1)
    note c2 = get_optional_config_code [of config "CONFIG_PUSH_FMT nm" api False None r1]
    show ?thesis
    proof (cases "get_optional_config config (CONFIG_PUSH_FMT nm) (Some (refspec_cb api False))
        (None, r1)")
      case (fields e2 f2 v2 r2)
      obtain r3 where r3: "download_tags_value r2 config = (0, r3)"
        by (simp add: download_tags_value_result)
      obtain e4 r4 where r4: "lookup_remote_prune_config r3 config nm = (e4, r4)"
        by (cases "lookup_remote_prune_config r3 config nm")
      have c4: "e4 = 0 \<or> e4 = - 1"
        using r4 by (auto simp: lookup_remote_prune_config_result split: sum.splits)
      obtain e5 out where r5: "dwim_refspecs api (active_refspecs r4) (refspecs r4) [] = (e5, out)"
        by (cases "dwim_refspecs api (active_refspecs r4) (refspecs r4) []")
      have c5: "e5 = 0 \<or> e5 = - 1"
        using dwim_refspecs_code [of api "active_refspecs r4" "refspecs r4" "[]"] r5 by simp
      show ?thesis
        using assms c1 c2 c4 c5 \<open>get_optional_config config (CONFIG_FETCH_FMT nm)
            (Some (refspec_cb api True)) (None, remote) = (e1, f1, v1, r1)\<close> fields r3 r4 r5
        by (auto simp: git_remote_lookup_settings_def split: if_splits)
    qed
  qed
qed

lemma git_remote_lookup_settings_result:
  assumes "\<forall>v \<in> set (config_multivar config (CONFIG_FETCH_FMT nm)). git_refspec__parse api v True \<noteq> None"
    and "\<forall>v \<in> set (config_multivar config (CONFIG_PUSH_FMT nm)). git_refspec__parse api v False \<noteq> None"
    and "configured_prune config nm = Inr prune"
    and "dwim_refspecs api [] (configured_refspecs api config nm) [] = (0, active)"
  shows "git_remote_lookup_settings api config nm
     \<lparr>remote_name = Some nm, remote_url = u, remote_pushurl = pu, has_repo = hr, refspecs = [],
      active_refspecs = [], passive_refspecs = ps,
      download_tags = GIT_REMOTE_DOWNLOAD_TAGS_AUTO, prune_refs = False,
      remote_transport = tr\<rparr> =
   Inr \<lparr>remote_name = Some nm, remote_url = u, remote_pushurl = pu, has_repo = hr,
        refspecs = configured_refspecs api config nm, active_refspecs = active,
        passive_refspecs = ps, download_tags = configured_tags config nm, prune_refs = prune,
        remote_transport = tr\<rparr>"
proof -
  have prune: "prune = False"
    if "\<not> (config_is_set config (''remote.'' @ nm @ ''.prune'') \<or> config_is_set config ''fetch.prune'')"
    using that assms(3) by (simp add: configured_prune_def config_is_set_def)
  show ?thesis
    using assms(3,4) prune
    by (simp add: git_remote_lookup_settings_def get_optional_config_refspecs [OF assms(1)]
        get_optional_config_refspecs [OF assms(2)] download_tags_value_result
        lookup_remote_prune_config_result configured_refspecs_def configured_tags_def c_str_def
        split: list.splits)
qed

text \<open>
  C7 (amended). For a valid remote name and a repository whose configuration can be loaded,
  \<^verbatim>\<open>git_remote_lookup\<close> fails with not-found exactly when neither \<^verbatim>\<open>remote.<name>.url\<close> nor
  \<^verbatim>\<open>remote.<name>.pushurl\<close> is set. If at least one of the two keys is set, every value of
  \<^verbatim>\<open>remote.<name>.fetch\<close> and \<^verbatim>\<open>remote.<name>.push\<close> parses as a refspec, the prune setting
  is a boolean and DWIM succeeds on the configured refspecs, the lookup succeeds and the
  remote is hydrated from the configuration: the name; the URLs of the two keys after the
  insteadOf rewrite, none for a key that is not set or empty; the refspecs of the fetch key
  and then of the push key, in order; the active refspecs that DWIM gives; the tag policy
  of \<^verbatim>\<open>remote.<name>.tagopt\<close>, AUTO by default; and the prune setting of
  \<^verbatim>\<open>remote.<name>.prune\<close>, else of \<^verbatim>\<open>fetch.prune\<close>, else false.
\<close>

theorem git_remote_lookup_not_found_iff:
  assumes "git_remote_is_valid_name api (Some nm)"
    and "repo_config repo = Inr config"
  shows
    "(git_remote_lookup api repo nm = Inl GIT_ENOTFOUND \<longleftrightarrow>
        \<not> config_is_set config (CONFIG_URL_FMT nm) \<and>
        \<not> config_is_set config (CONFIG_PUSHURL_FMT nm)) \<and>
     ((config_is_set config (CONFIG_URL_FMT nm) \<or> config_is_set config (CONFIG_PUSHURL_FMT nm)) \<and>
      (\<forall>v \<in> set (config_multivar config (CONFIG_FETCH_FMT nm)).
         git_refspec__parse api v True \<noteq> None) \<and>
      (\<forall>v \<in> set (config_multivar config (CONFIG_PUSH_FMT nm)).
         git_refspec__parse api v False \<noteq> None) \<and>
      configured_prune config nm = Inr prune \<and>
      dwim_refspecs api [] (configured_refspecs api config nm) [] = (0, active) \<longrightarrow>
      git_remote_lookup api repo nm =
        Inr \<lparr>remote_name = Some nm,
             remote_url = configured_url config (CONFIG_URL_FMT nm) GIT_DIRECTION_FETCH,
             remote_pushurl = configured_url config (CONFIG_PUSHURL_FMT nm) GIT_DIRECTION_PUSH,
             has_repo = True,
             refspecs = configured_refspecs api config nm,
             active_refspecs = active,
             passive_refspecs = [],
             download_tags = configured_tags config nm,
             prune_refs = prune,
             remote_transport = None\<rparr>)"
proof -
  let ?unset = "\<not> config_is_set config (CONFIG_URL_FMT nm) \<and>
        \<not> config_is_set config (CONFIG_PUSHURL_FMT nm)"
  let ?urls = "\<lparr>remote_name = Some nm,
        remote_url = configured_url config (CONFIG_URL_FMT nm) GIT_DIRECTION_FETCH,
        remote_pushurl = configured_url config (CONFIG_PUSHURL_FMT nm) GIT_DIRECTION_PUSH,
        has_repo = True, refspecs = [], active_refspecs = [], passive_refspecs = [],
        download_tags = GIT_REMOTE_DOWNLOAD_TAGS_AUTO, prune_refs = False,
        remote_transport = None\<rparr>"
  have lookup: "git_remote_lookup api repo nm =
      (if ?unset then Inl GIT_ENOTFOUND else git_remote_lookup_settings api config nm ?urls)"
    using assms
    by (simp add: git_remote_lookup_def ensure_remote_name_is_valid_def
        git_repository_config_snapshot_def git_remote_lookup_urls_result)
  have iff: "git_remote_lookup api repo nm = Inl GIT_ENOTFOUND \<longleftrightarrow> ?unset"
  proof
    assume nf: "git_remote_lookup api repo nm = Inl GIT_ENOTFOUND"
    show ?unset
    proof (rule ccontr)
      assume "\<not> ?unset"
      then have "git_remote_lookup api repo nm = git_remote_lookup_settings api config nm ?urls"
        by (simp only: lookup if_False)
      then have "git_remote_lookup_settings api config nm ?urls = Inl GIT_ENOTFOUND"
        using nf by simp
      from git_remote_lookup_settings_code [OF this] show False
        by (simp add: GIT_ENOTFOUND_def)
    qed
  next
    assume ?unset
    then show "git_remote_lookup api repo nm = Inl GIT_ENOTFOUND" using lookup by simp
  qed
  have ok: "(config_is_set config (CONFIG_URL_FMT nm) \<or> config_is_set config (CONFIG_PUSHURL_FMT nm)) \<and>
      (\<forall>v \<in> set (config_multivar config (CONFIG_FETCH_FMT nm)).
         git_refspec__parse api v True \<noteq> None) \<and>
      (\<forall>v \<in> set (config_multivar config (CONFIG_PUSH_FMT nm)).
         git_refspec__parse api v False \<noteq> None) \<and>
      configured_prune config nm = Inr prune \<and>
      dwim_refspecs api [] (configured_refspecs api config nm) [] = (0, active) \<longrightarrow>
      git_remote_lookup api repo nm =
        Inr \<lparr>remote_name = Some nm,
             remote_url = configured_url config (CONFIG_URL_FMT nm) GIT_DIRECTION_FETCH,
             remote_pushurl = configured_url config (CONFIG_PUSHURL_FMT nm) GIT_DIRECTION_PUSH,
             has_repo = True,
             refspecs = configured_refspecs api config nm,
             active_refspecs = active,
             passive_refspecs = [],
             download_tags = configured_tags config nm,
             prune_refs = prune,
             remote_transport = None\<rparr>"
  proof
    assume a: "(config_is_set config (CONFIG_URL_FMT nm) \<or> config_is_set config (CONFIG_PUSHURL_FMT nm)) \<and>
      (\<forall>v \<in> set (config_multivar config (CONFIG_FETCH_FMT nm)).
         git_refspec__parse api v True \<noteq> None) \<and>
      (\<forall>v \<in> set (config_multivar config (CONFIG_PUSH_FMT nm)).
         git_refspec__parse api v False \<noteq> None) \<and>
      configured_prune config nm = Inr prune \<and>
      dwim_refspecs api [] (configured_refspecs api config nm) [] = (0, active)"
    then have "\<not> ?unset" by blast
    then have "git_remote_lookup api repo nm = git_remote_lookup_settings api config nm ?urls"
      by (simp only: lookup if_False)
    also have "\<dots> = Inr \<lparr>remote_name = Some nm,
             remote_url = configured_url config (CONFIG_URL_FMT nm) GIT_DIRECTION_FETCH,
             remote_pushurl = configured_url config (CONFIG_PUSHURL_FMT nm) GIT_DIRECTION_PUSH,
             has_repo = True,
             refspecs = configured_refspecs api config nm,
             active_refspecs = active,
             passive_refspecs = [],
             download_tags = configured_tags config nm,
             prune_refs = prune,
             remote_transport = None\<rparr>"
      using a by (intro git_remote_lookup_settings_result) blast+
    finally show "git_remote_lookup api repo nm =
        Inr \<lparr>remote_name = Some nm,
             remote_url = configured_url config (CONFIG_URL_FMT nm) GIT_DIRECTION_FETCH,
             remote_pushurl = configured_url config (CONFIG_PUSHURL_FMT nm) GIT_DIRECTION_PUSH,
             has_repo = True,
             refspecs = configured_refspecs api config nm,
             active_refspecs = active,
             passive_refspecs = [],
             download_tags = configured_tags config nm,
             prune_refs = prune,
             remote_transport = None\<rparr>" .
  qed
  from iff ok show ?thesis by blast
qed

lemmas lookup_eval =
  git_remote_lookup_def git_remote_lookup_urls_def git_remote_lookup_settings_def
  get_optional_config_def git_config_get_multivar_foreach_def git_config_get_string_def
  config_multivar_def refspec_cb_def add_refspec_def add_refspec_to_def download_tags_value_def
  git_config__lookup_entry_def lookup_remote_prune_config_def git_config_get_bool_def
  ensure_remote_name_is_valid_def git_remote_is_valid_name_def git_repository_config_snapshot_def
  CONFIG_URL_FMT_def CONFIG_PUSHURL_FMT_def CONFIG_FETCH_FMT_def CONFIG_PUSH_FMT_def
  CONFIG_TAGOPT_FMT_def c_str_def apply_insteadof_def git_config_iterator_glob_new_def
  glob_matches_def PREFIX_def SUFFIX_FETCH_def SUFFIX_PUSH_def

theorem git_remote_lookup_not_found_iff_witness:
  "git_remote_is_valid_name spec_api (Some ''origin'') \<and>
   config_is_set
     [\<lparr>entry_name = ''remote.origin.url'', entry_value = ''https://example.com/repo.git''\<rparr>,
      \<lparr>entry_name = ''remote.origin.fetch'',
       entry_value = ''+refs/heads/*:refs/remotes/origin/*''\<rparr>]
     (CONFIG_URL_FMT ''origin'') \<and>
   git_remote_lookup spec_api configured_repository ''origin'' =
     Inr \<lparr>remote_name = Some ''origin'',
          remote_url = Some ''https://example.com/repo.git'',
          remote_pushurl = None,
          has_repo = True,
          refspecs = [origin_heads_spec],
          active_refspecs = [origin_heads_spec],
          passive_refspecs = [],
          download_tags = GIT_REMOTE_DOWNLOAD_TAGS_AUTO,
          prune_refs = False,
          remote_transport = None\<rparr>"
proof -
  let ?config =
    "[\<lparr>entry_name = ''remote.origin.url'', entry_value = ''https://example.com/repo.git''\<rparr>,
      \<lparr>entry_name = ''remote.origin.fetch'',
       entry_value = ''+refs/heads/*:refs/remotes/origin/*''\<rparr>]"
  have valid: "git_remote_is_valid_name spec_api (Some ''origin'')"
    by (simp add: git_remote_is_valid_name_def spec_api_eval)
  have cfg: "repo_config configured_repository = Inr ?config"
    by (simp add: configured_repository_def)
  have url: "config_is_set ?config (CONFIG_URL_FMT ''origin'')"
    by (simp add: config_is_set_def config_multivar_def CONFIG_URL_FMT_def)
  have fetch: "\<forall>v \<in> set (config_multivar ?config (CONFIG_FETCH_FMT ''origin'')).
      git_refspec__parse spec_api v True \<noteq> None"
    by (simp add: config_multivar_def CONFIG_FETCH_FMT_def spec_api_eval)
  have push: "\<forall>v \<in> set (config_multivar ?config (CONFIG_PUSH_FMT ''origin'')).
      git_refspec__parse spec_api v False \<noteq> None"
    by (simp add: config_multivar_def CONFIG_PUSH_FMT_def)
  have prune: "configured_prune ?config ''origin'' = Inr False"
    by (simp add: configured_prune_def config_multivar_def)
  have specs: "configured_refspecs spec_api ?config ''origin'' = [origin_heads_spec]"
    by (simp add: configured_refspecs_def config_multivar_def CONFIG_FETCH_FMT_def
        CONFIG_PUSH_FMT_def spec_api_eval origin_heads_spec_def)
  have dwim: "dwim_refspecs spec_api [] (configured_refspecs spec_api ?config ''origin'') [] =
      (0, [origin_heads_spec])"
    unfolding specs by (simp add: spec_api_def spec_dwim_one_def origin_heads_spec_def)
  have u: "configured_url ?config (CONFIG_URL_FMT ''origin'') GIT_DIRECTION_FETCH =
      Some ''https://example.com/repo.git''"
    by (simp add: configured_url_def config_multivar_def CONFIG_URL_FMT_def apply_insteadof_def
        git_config_iterator_glob_new_def glob_matches_def PREFIX_def SUFFIX_FETCH_def)
  have pu: "configured_url ?config (CONFIG_PUSHURL_FMT ''origin'') GIT_DIRECTION_PUSH = None"
    by (simp add: configured_url_def config_multivar_def CONFIG_PUSHURL_FMT_def)
  have tags: "configured_tags ?config ''origin'' = GIT_REMOTE_DOWNLOAD_TAGS_AUTO"
    by (simp add: configured_tags_def config_multivar_def CONFIG_TAGOPT_FMT_def)
  from git_remote_lookup_not_found_iff [OF valid cfg, of False "[origin_heads_spec]"]
    url fetch push prune dwim
  have "git_remote_lookup spec_api configured_repository ''origin'' =
     Inr \<lparr>remote_name = Some ''origin'',
          remote_url = configured_url ?config (CONFIG_URL_FMT ''origin'') GIT_DIRECTION_FETCH,
          remote_pushurl = configured_url ?config (CONFIG_PUSHURL_FMT ''origin'') GIT_DIRECTION_PUSH,
          has_repo = True,
          refspecs = configured_refspecs spec_api ?config ''origin'',
          active_refspecs = [origin_heads_spec],
          passive_refspecs = [],
          download_tags = configured_tags ?config ''origin'',
          prune_refs = False,
          remote_transport = None\<rparr>"
    by blast
  then show ?thesis using valid url by (simp only: u pu specs tags)
qed

text \<open>
  C7 as stated fails in both directions. For the empty name neither key is set, and the
  lookup fails with invalid-spec, not with not-found. For the remote \<^verbatim>\<open>origin\<close> of a
  configuration that sets \<^verbatim>\<open>remote.origin.url\<close> and a fetch refspec that does not parse,
  the lookup fails although a key is set.
\<close>

theorem git_remote_lookup_counterexample:
  "\<not> config_is_set [] (CONFIG_URL_FMT []) \<and>
   \<not> config_is_set [] (CONFIG_PUSHURL_FMT []) \<and>
   repo_config empty_repository = Inr [] \<and>
   git_remote_lookup spec_api empty_repository [] = Inl GIT_EINVALIDSPEC \<and>
   repo_config misconfigured_repository = Inr
     [\<lparr>entry_name = ''remote.origin.url'', entry_value = ''https://example.com/repo.git''\<rparr>,
      \<lparr>entry_name = ''remote.origin.fetch'',
       entry_value = ''refs/heads/*:refs/remotes/origin/main''\<rparr>] \<and>
   config_is_set
     [\<lparr>entry_name = ''remote.origin.url'', entry_value = ''https://example.com/repo.git''\<rparr>,
      \<lparr>entry_name = ''remote.origin.fetch'',
       entry_value = ''refs/heads/*:refs/remotes/origin/main''\<rparr>]
     (CONFIG_URL_FMT ''origin'') \<and>
   git_remote_is_valid_name spec_api (Some ''origin'') \<and>
   git_remote_lookup spec_api misconfigured_repository ''origin'' = Inl (- 1)"
proof -
  have a: "git_remote_lookup spec_api empty_repository [] = Inl GIT_EINVALIDSPEC"
    by (simp add: git_remote_lookup_def ensure_remote_name_is_valid_def
        git_remote_is_valid_name_def GIT_EINVALIDSPEC_def)
  have b: "git_remote_lookup spec_api misconfigured_repository ''origin'' = Inl (- 1)"
    by (simp add: lookup_eval spec_api_eval misconfigured_repository_def git_codes)
  have c: "git_remote_is_valid_name spec_api (Some ''origin'')"
    by (simp add: git_remote_is_valid_name_def spec_api_eval)
  show ?thesis
    using a b c
    by (simp add: config_is_set_def config_multivar_def empty_repository_def
        misconfigured_repository_def CONFIG_URL_FMT_def)
qed

end
